theory Spec2Isabelle
  imports Complex_Main "HOL-Library.Multiset"
begin

section \<open>Python values used by \<open>stellargraph/mapper/sequences.py\<close>\<close>

text \<open>
  The exceptions that the module raises itself (\<open>TypeError\<close>, \<open>ValueError\<close>,
  \<open>IndexError\<close>) and the ones that the interpreter and numpy raise inside it
  (\<open>ZeroDivisionError\<close> for a division by a zero batch size, \<open>AttributeError\<close> for
  reading an attribute that was never assigned, \<open>ValueError\<close> for \<open>max([])\<close>, for a
  negative dimension and for stacking arrays of different shapes).
\<close>

datatype py_error = TypeError | ValueError | IndexError | ZeroDivisionError | AttributeError

text \<open>
  \<open>xs[start:stop]\<close> on a list or on the first axis of an array: a negative bound counts
  from the end and both bounds are clipped to the length; a slice never raises.
\<close>

definition py_slice :: "'a list \<Rightarrow> int \<Rightarrow> int \<Rightarrow> 'a list" where
  "py_slice xs start stop =
     (let n = int (length xs);
          lo = (if start < 0 then max (start + n) 0 else min start n);
          hi = (if stop < 0 then max (stop + n) 0 else min stop n)
      in take (nat (hi - lo)) (drop (nat lo) xs))"

text \<open>\<open>xs[i]\<close> on a list, for a Python integer \<open>i\<close>.\<close>

definition py_getitem :: "'a list \<Rightarrow> int \<Rightarrow> py_error + 'a" where
  "py_getitem xs i =
     (if 0 \<le> i \<and> i < int (length xs) then Inr (xs ! nat i)
      else if - int (length xs) \<le> i \<and> i < 0 then Inr (xs ! nat (int (length xs) + i))
      else Inl IndexError)"

text \<open>
  Reading a sequence at each index of a list of non-negative indices: the comprehension
  \<open>[xs[ii] for ii in idx]\<close> and numpy's \<open>arr[idx]\<close> along the first axis. Both raise
  \<open>IndexError\<close> when an index is not below the length.
\<close>

definition py_take :: "'a list \<Rightarrow> nat list \<Rightarrow> py_error + 'a list" where
  "py_take xs idx =
     (if list_all (\<lambda>i. i < length xs) idx then Inr (map (\<lambda>i. xs ! i) idx)
      else Inl IndexError)"

text \<open>
  \<open>int(np.ceil(n / b))\<close>. Python's \<open>/\<close> on two integers is the exact quotient rounded to
  a double; \<open>fl\<close> is that rounding, as a function on the reals. \<open>np.ceil\<close> and \<open>int\<close> are
  exact on a double. The dividend is the length of a list and the divisor a non-zero
  integer, so the quotient is within the range of the doubles.
\<close>

definition ceil_div :: "(real \<Rightarrow> real) \<Rightarrow> int \<Rightarrow> int \<Rightarrow> py_error + int" where
  "ceil_div fl n b =
     (if b = 0 then Inl ZeroDivisionError
      else Inr \<lceil>fl (real_of_int n / real_of_int b)\<rceil>)"

text \<open>
  What is used of rounding to the nearest double: it is monotone, it leaves the integers
  up to \<open>2^53\<close> as they are, and in the normal range its relative error is at most
  \<open>2^-53\<close>. Below the normal range a double loses precision, and a magnitude of at most
  \<open>2^-1075\<close> rounds to zero.
\<close>

definition double_rounding :: "(real \<Rightarrow> real) \<Rightarrow> bool" where
  "double_rounding fl =
     ((\<forall>x y. x \<le> y \<longrightarrow> fl x \<le> fl y)
      \<and> (\<forall>k::int. \<bar>k\<bar> \<le> 2 ^ 53 \<longrightarrow> fl (real_of_int k) = real_of_int k)
      \<and> (\<forall>x. 1 / 2 ^ 1022 \<le> \<bar>x\<bar> \<and> \<bar>x\<bar> \<le> 2 ^ 1023 \<longrightarrow> \<bar>fl x - x\<bar> \<le> \<bar>x\<bar> / 2 ^ 53))"

text \<open>The calls that the training loop makes on a sequence object.\<close>

datatype seq_call = GetItem int | OnEpochEnd

section \<open>Random generators\<close>

text \<open>
  A generator is an object with a state \<open>'rs\<close>; its \<open>shuffle\<close> method is the parameter
  \<open>rs_shuffle\<close> of the definitions below, which returns the shuffled list and the next
  state. The process has one generator of its own, behind the functions of the modules
  \<open>random\<close> and \<open>np.random\<close>; its state is passed to and returned by every function that
  can draw from it. An object refers either to a generator that it alone holds, or to
  the generator of the process.
\<close>

datatype 'rs generator = Own 'rs | ProcessWide

text \<open>
  Modelled from the spec: \<open>random_state\<close> (of \<open>stellargraph.random\<close>) is not among the
  sources. With a seed it returns a new generator seeded with it, which the component
  owns (\<open>seeded\<close> is the seeding of the generator); without one (\<open>seed=None\<close>, the default
  of the constructors) it returns the generator of the process.
\<close>

definition random_state :: "('seed \<Rightarrow> 'rs) \<Rightarrow> 'seed option \<Rightarrow> 'rs generator" where
  "random_state seeded seed = (case seed of None \<Rightarrow> ProcessWide | Some v \<Rightarrow> Own (seeded v))"

text \<open>
  \<open>gen.shuffle(xs)\<close>: the shuffled list, the object's reference and the state of the
  generator of the process afterwards.
\<close>

definition generator_shuffle ::
  "('rs \<Rightarrow> nat list \<Rightarrow> nat list \<times> 'rs) \<Rightarrow> 'rs generator \<Rightarrow> 'rs \<Rightarrow> nat list
     \<Rightarrow> nat list \<times> 'rs generator \<times> 'rs" where
  "generator_shuffle rs_shuffle gen g xs =
     (case gen of
        Own r \<Rightarrow> (case rs_shuffle r xs of (ys, r') \<Rightarrow> (ys, Own r', g))
      | ProcessWide \<Rightarrow> (case rs_shuffle g xs of (ys, g') \<Rightarrow> (ys, ProcessWide, g')))"

text \<open>
  What happens in the process around an object: a call on the object, or a draw from
  the generator of the process by other code.
\<close>

datatype 'rs event = Call seq_call | Elsewhere "'rs \<Rightarrow> 'rs"

fun is_epoch_end :: "'rs event \<Rightarrow> bool" where
  "is_epoch_end (Call OnEpochEnd) = True"
| "is_epoch_end (Call (GetItem i)) = False"
| "is_epoch_end (Elsewhere f) = False"

fun elsewhere :: "'rs \<Rightarrow> 'rs event \<Rightarrow> 'rs" where
  "elsewhere g (Elsewhere f) = f g"
| "elsewhere g (Call c) = g"

section \<open>\<open>NodeSequence\<close> and \<open>LinkSequence\<close>\<close>

text \<open>
  The attributes of a \<open>NodeSequence\<close>; field \<open>ns_x\<close> is \<open>self.x\<close> (\<open>ns_rs\<close> is
  \<open>self._rs\<close>, \<open>ns_sample_function\<close> is \<open>self._sample_function\<close>). A \<open>LinkSequence\<close>
  has the same attributes (its sampling function is \<open>self._sample_features\<close>).
\<close>

record ('id, 'tgt, 'rs, 'f) NodeSequence =
  ns_targets :: "'tgt list option"
  ns_sample_function :: "'id list \<Rightarrow> int \<Rightarrow> 'f"
  ns_ids :: "'id list"
  ns_data_size :: int
  ns_shuffle :: bool
  ns_batch_size :: int
  ns_rs :: "'rs generator"
  ns_indices :: "nat list"

text \<open>
  \<open>on_epoch_end\<close>: the identity order over \<open>range(data_size)\<close>, shuffled by
  \<open>self._rs\<close> when \<open>shuffle\<close> is set. \<open>g\<close> is the state of the generator of the process.
\<close>

definition NodeSequence_on_epoch_end ::
  "('rs \<Rightarrow> nat list \<Rightarrow> nat list \<times> 'rs) \<Rightarrow> ('id, 'tgt, 'rs, 'f) NodeSequence \<Rightarrow> 'rs
     \<Rightarrow> ('id, 'tgt, 'rs, 'f) NodeSequence \<times> 'rs" where
  "NodeSequence_on_epoch_end rs_shuffle s g =
     (let s1 = s\<lparr>ns_indices := [0..<nat (ns_data_size s)]\<rparr>
      in if ns_shuffle s1
         then (case generator_shuffle rs_shuffle (ns_rs s1) g (ns_indices s1) of
                 (idx, gen, g') \<Rightarrow> (s1\<lparr>ns_indices := idx, ns_rs := gen\<rparr>, g'))
         else (s1, g))"

text \<open>
  \<open>__init__\<close>. The arguments are typed, so the checks \<open>is_real_iterable(ids)\<close>,
  \<open>is_real_iterable(targets)\<close> and \<open>isinstance(sample_function, Callable)\<close> hold; the
  length check remains.
\<close>

definition NodeSequence_init ::
  "('seed \<Rightarrow> 'rs) \<Rightarrow> ('rs \<Rightarrow> nat list \<Rightarrow> nat list \<times> 'rs) \<Rightarrow> ('id list \<Rightarrow> int \<Rightarrow> 'f) \<Rightarrow> int
     \<Rightarrow> 'id list \<Rightarrow> 'tgt list option \<Rightarrow> bool \<Rightarrow> 'seed option \<Rightarrow> 'rs
     \<Rightarrow> py_error + (('id, 'tgt, 'rs, 'f) NodeSequence \<times> 'rs)" where
  "NodeSequence_init seeded rs_shuffle sample_function batch_size ids targets shuffle seed g =
     (if (case targets of None \<Rightarrow> False | Some t \<Rightarrow> length ids \<noteq> length t)
      then Inl ValueError
      else Inr (NodeSequence_on_epoch_end rs_shuffle
             \<lparr>ns_targets = targets, ns_sample_function = sample_function, ns_ids = ids,
              ns_data_size = int (length ids), ns_shuffle = shuffle,
              ns_batch_size = batch_size, ns_rs = random_state seeded seed,
              ns_indices = []\<rparr> g))"

definition NodeSequence_len ::
  "(real \<Rightarrow> real) \<Rightarrow> ('id, 'tgt, 'rs, 'f) NodeSequence \<Rightarrow> py_error + int" where
  "NodeSequence_len fl s = ceil_div fl (ns_data_size s) (ns_batch_size s)"

text \<open>
  \<open>__getitem__\<close>. \<open>batch_head_ids\<close> and \<open>batch_targets\<close> are the two reads of the
  method; the method assigns no attribute and draws no random number.
\<close>

definition batch_head_ids :: "('id, 'tgt, 'rs, 'f) NodeSequence \<Rightarrow> int \<Rightarrow> py_error + 'id list" where
  "batch_head_ids s batch_num =
     (let start_idx = ns_batch_size s * batch_num;
          end_idx = start_idx + ns_batch_size s
      in py_take (ns_ids s) (py_slice (ns_indices s) start_idx end_idx))"

definition batch_targets :: "('id, 'tgt, 'rs, 'f) NodeSequence \<Rightarrow> int \<Rightarrow> py_error + 'tgt list option" where
  "batch_targets s batch_num =
     (let start_idx = ns_batch_size s * batch_num;
          end_idx = start_idx + ns_batch_size s
      in case ns_targets s of
           None \<Rightarrow> Inr None
         | Some t \<Rightarrow>
             (case py_take t (py_slice (ns_indices s) start_idx end_idx) of
                Inl e \<Rightarrow> Inl e
              | Inr ts \<Rightarrow> Inr (Some ts)))"

definition NodeSequence_getitem ::
  "('id, 'tgt, 'rs, 'f) NodeSequence \<Rightarrow> int \<Rightarrow> py_error + ('f \<times> 'tgt list option)" where
  "NodeSequence_getitem s batch_num =
     (if ns_batch_size s * batch_num \<ge> ns_data_size s then Inl IndexError
      else case batch_head_ids s batch_num of
             Inl e \<Rightarrow> Inl e
           | Inr head_ids \<Rightarrow>
               (case batch_targets s batch_num of
                  Inl e \<Rightarrow> Inl e
                | Inr tgts \<Rightarrow> Inr (ns_sample_function s head_ids batch_num, tgts)))"

text \<open>
  The object and the generator of the process after a call, and after an event of the
  process: only \<open>on_epoch_end\<close> assigns attributes.
\<close>

fun NodeSequence_call ::
  "('rs \<Rightarrow> nat list \<Rightarrow> nat list \<times> 'rs) \<Rightarrow> ('id, 'tgt, 'rs, 'f) NodeSequence \<times> 'rs \<Rightarrow> seq_call
     \<Rightarrow> ('id, 'tgt, 'rs, 'f) NodeSequence \<times> 'rs" where
  "NodeSequence_call rs_shuffle (s, g) (GetItem i) = (s, g)"
| "NodeSequence_call rs_shuffle (s, g) OnEpochEnd = NodeSequence_on_epoch_end rs_shuffle s g"

fun NodeSequence_step ::
  "('rs \<Rightarrow> nat list \<Rightarrow> nat list \<times> 'rs) \<Rightarrow> ('id, 'tgt, 'rs, 'f) NodeSequence \<times> 'rs \<Rightarrow> 'rs event
     \<Rightarrow> ('id, 'tgt, 'rs, 'f) NodeSequence \<times> 'rs" where
  "NodeSequence_step rs_shuffle (s, g) (Call c) = NodeSequence_call rs_shuffle (s, g) c"
| "NodeSequence_step rs_shuffle (s, g) (Elsewhere f) = (s, f g)"

text \<open>
  \<open>LinkSequence\<close> repeats \<open>NodeSequence\<close> line by line; its constructor checks the
  lengths of identifiers and targets a second time.
\<close>

definition LinkSequence_on_epoch_end ::
  "('rs \<Rightarrow> nat list \<Rightarrow> nat list \<times> 'rs) \<Rightarrow> ('id, 'tgt, 'rs, 'f) NodeSequence \<Rightarrow> 'rs
     \<Rightarrow> ('id, 'tgt, 'rs, 'f) NodeSequence \<times> 'rs" where
  "LinkSequence_on_epoch_end rs_shuffle s g =
     (let s1 = s\<lparr>ns_indices := [0..<nat (ns_data_size s)]\<rparr>
      in if ns_shuffle s1
         then (case generator_shuffle rs_shuffle (ns_rs s1) g (ns_indices s1) of
                 (idx, gen, g') \<Rightarrow> (s1\<lparr>ns_indices := idx, ns_rs := gen\<rparr>, g'))
         else (s1, g))"

definition LinkSequence_init ::
  "('seed \<Rightarrow> 'rs) \<Rightarrow> ('rs \<Rightarrow> nat list \<Rightarrow> nat list \<times> 'rs) \<Rightarrow> ('id list \<Rightarrow> int \<Rightarrow> 'f) \<Rightarrow> int
     \<Rightarrow> 'id list \<Rightarrow> 'tgt list option \<Rightarrow> bool \<Rightarrow> 'seed option \<Rightarrow> 'rs
     \<Rightarrow> py_error + (('id, 'tgt, 'rs, 'f) NodeSequence \<times> 'rs)" where
  "LinkSequence_init seeded rs_shuffle sample_function batch_size ids targets shuffle seed g =
     (if (case targets of None \<Rightarrow> False | Some t \<Rightarrow> length ids \<noteq> length t)
      then Inl ValueError
      else if (case targets of None \<Rightarrow> False | Some t \<Rightarrow> length ids \<noteq> length t)
      then Inl ValueError
      else Inr (LinkSequence_on_epoch_end rs_shuffle
             \<lparr>ns_targets = targets, ns_sample_function = sample_function, ns_ids = ids,
              ns_data_size = int (length ids), ns_shuffle = shuffle,
              ns_batch_size = batch_size, ns_rs = random_state seeded seed,
              ns_indices = []\<rparr> g))"

definition LinkSequence_len ::
  "(real \<Rightarrow> real) \<Rightarrow> ('id, 'tgt, 'rs, 'f) NodeSequence \<Rightarrow> py_error + int" where
  "LinkSequence_len fl s = ceil_div fl (ns_data_size s) (ns_batch_size s)"

definition LinkSequence_getitem ::
  "('id, 'tgt, 'rs, 'f) NodeSequence \<Rightarrow> int \<Rightarrow> py_error + ('f \<times> 'tgt list option)" where
  "LinkSequence_getitem s batch_num =
     (if ns_batch_size s * batch_num \<ge> ns_data_size s then Inl IndexError
      else case batch_head_ids s batch_num of
             Inl e \<Rightarrow> Inl e
           | Inr head_ids \<Rightarrow>
               (case batch_targets s batch_num of
                  Inl e \<Rightarrow> Inl e
                | Inr tgts \<Rightarrow> Inr (ns_sample_function s head_ids batch_num, tgts)))"

fun LinkSequence_call ::
  "('rs \<Rightarrow> nat list \<Rightarrow> nat list \<times> 'rs) \<Rightarrow> ('id, 'tgt, 'rs, 'f) NodeSequence \<times> 'rs \<Rightarrow> seq_call
     \<Rightarrow> ('id, 'tgt, 'rs, 'f) NodeSequence \<times> 'rs" where
  "LinkSequence_call rs_shuffle (s, g) (GetItem i) = (s, g)"
| "LinkSequence_call rs_shuffle (s, g) OnEpochEnd = LinkSequence_on_epoch_end rs_shuffle s g"

fun LinkSequence_step ::
  "('rs \<Rightarrow> nat list \<Rightarrow> nat list \<times> 'rs) \<Rightarrow> ('id, 'tgt, 'rs, 'f) NodeSequence \<times> 'rs \<Rightarrow> 'rs event
     \<Rightarrow> ('id, 'tgt, 'rs, 'f) NodeSequence \<times> 'rs" where
  "LinkSequence_step rs_shuffle (s, g) (Call c) = LinkSequence_call rs_shuffle (s, g) c"
| "LinkSequence_step rs_shuffle (s, g) (Elsewhere f) = (s, f g)"

text \<open>
  What the constructor establishes and \<open>on_epoch_end\<close> keeps: the stored size is the
  number of identifiers, the index list is a permutation of \<open>range(data_size)\<close>, and the
  targets, when present, are as many as the identifiers.
\<close>

definition ns_inv :: "('id, 'tgt, 'rs, 'f) NodeSequence \<Rightarrow> bool" where
  "ns_inv s = (ns_data_size s = int (length (ns_ids s)) \<and>
     mset (ns_indices s) = mset [0..<length (ns_ids s)] \<and>
     (case ns_targets s of None \<Rightarrow> True | Some t \<Rightarrow> length t = length (ns_ids s)))"

text \<open>Every attribute of a node or link sequence but its sampling function.\<close>

definition ns_core ::
  "('id, 'tgt, 'rs, 'f) NodeSequence
     \<Rightarrow> 'tgt list option \<times> 'id list \<times> int \<times> bool \<times> int \<times> 'rs generator \<times> nat list" where
  "ns_core s = (ns_targets s, ns_ids s, ns_data_size s, ns_shuffle s, ns_batch_size s,
                ns_rs s, ns_indices s)"

fun is_own :: "'rs generator \<Rightarrow> bool" where
  "is_own (Own r) = True"
| "is_own ProcessWide = False"

section \<open>\<open>OnDemandLinkSequence\<close>\<close>

text \<open>
  Field \<open>od_x\<close> is \<open>self.x\<close> (\<open>od_sample_features\<close> is \<open>self._sample_features\<close>,
  \<open>od_batches\<close> is \<open>self._batches\<close>). \<open>'w\<close> is the state of the walker, an
  \<open>UnsupervisedSampler\<close>; its method \<open>run(batch_size)\<close> is the parameter \<open>walker_run\<close>,
  which returns the list of batches (head identifiers and targets) and the walker's next
  state.
\<close>

record ('id, 'tgt, 'w, 'f) OnDemandLinkSequence =
  od_sample_features :: "'id list \<Rightarrow> int \<Rightarrow> 'f"
  od_batch_size :: int
  od_walker :: 'w
  od_shuffle :: bool
  od_batches :: "('id list \<times> 'tgt) list"
  od_length :: int
  od_data_size :: int

definition OnDemandLinkSequence_create_batches ::
  "('w \<Rightarrow> int \<Rightarrow> ('id list \<times> 'tgt) list \<times> 'w) \<Rightarrow> ('id, 'tgt, 'w, 'f) OnDemandLinkSequence
     \<Rightarrow> ('id list \<times> 'tgt) list \<times> 'w" where
  "OnDemandLinkSequence_create_batches walker_run s = walker_run (od_walker s) (od_batch_size s)"

text \<open>
  \<open>__init__\<close>; the arguments are typed, so the two \<open>isinstance\<close> checks hold.
\<close>

definition OnDemandLinkSequence_init ::
  "('w \<Rightarrow> int \<Rightarrow> ('id list \<times> 'tgt) list \<times> 'w) \<Rightarrow> ('id list \<Rightarrow> int \<Rightarrow> 'f) \<Rightarrow> int \<Rightarrow> 'w \<Rightarrow> bool
     \<Rightarrow> ('id, 'tgt, 'w, 'f) OnDemandLinkSequence" where
  "OnDemandLinkSequence_init walker_run sample_function batch_size walker shuffle =
     (let s1 = \<lparr>od_sample_features = sample_function, od_batch_size = batch_size,
                od_walker = walker, od_shuffle = shuffle, od_batches = [],
                od_length = 0, od_data_size = 0\<rparr>
      in case OnDemandLinkSequence_create_batches walker_run s1 of
           (batches, walker') \<Rightarrow>
             s1\<lparr>od_walker := walker', od_batches := batches,
                od_length := int (length batches),
                od_data_size := sum_list (map (\<lambda>batch. int (length (fst batch))) batches)\<rparr>)"

definition OnDemandLinkSequence_len :: "('id, 'tgt, 'w, 'f) OnDemandLinkSequence \<Rightarrow> int" where
  "OnDemandLinkSequence_len s = od_length s"

definition OnDemandLinkSequence_getitem ::
  "('id, 'tgt, 'w, 'f) OnDemandLinkSequence \<Rightarrow> int \<Rightarrow> py_error + ('f \<times> 'tgt)" where
  "OnDemandLinkSequence_getitem s batch_num =
     (if batch_num \<ge> OnDemandLinkSequence_len s then Inl IndexError
      else case py_getitem (od_batches s) batch_num of
             Inl e \<Rightarrow> Inl e
           | Inr (head_ids, tgts) \<Rightarrow>
               Inr (od_sample_features s head_ids batch_num, tgts))"

definition OnDemandLinkSequence_on_epoch_end ::
  "('w \<Rightarrow> int \<Rightarrow> ('id list \<times> 'tgt) list \<times> 'w) \<Rightarrow> ('id, 'tgt, 'w, 'f) OnDemandLinkSequence
     \<Rightarrow> ('id, 'tgt, 'w, 'f) OnDemandLinkSequence" where
  "OnDemandLinkSequence_on_epoch_end walker_run s =
     (if od_shuffle s
      then (case OnDemandLinkSequence_create_batches walker_run s of
              (batches, walker') \<Rightarrow> s\<lparr>od_batches := batches, od_walker := walker'\<rparr>)
      else s)"

fun OnDemandLinkSequence_call ::
  "('w \<Rightarrow> int \<Rightarrow> ('id list \<times> 'tgt) list \<times> 'w) \<Rightarrow> ('id, 'tgt, 'w, 'f) OnDemandLinkSequence
     \<Rightarrow> seq_call \<Rightarrow> ('id, 'tgt, 'w, 'f) OnDemandLinkSequence" where
  "OnDemandLinkSequence_call walker_run s (GetItem i) = s"
| "OnDemandLinkSequence_call walker_run s OnEpochEnd = OnDemandLinkSequence_on_epoch_end walker_run s"

section \<open>Sparse matrices and graphs\<close>

text \<open>
  A scipy sparse matrix, by its shape and its stored entries (row, column, value) in
  storage order; converting between the sparse formats keeps both, so \<open>tocoo()\<close> is the
  identity here. scipy checks at construction that every stored index lies inside the
  shape (\<open>sp_wf\<close>). It allows one position to be stored several times; \<open>toarray()\<close> adds
  such entries up.
\<close>

record 'a spmatrix =
  sp_shape :: "nat \<times> nat"
  sp_entries :: "(nat \<times> nat \<times> 'a) list"


definition sp_toarray :: "('a::comm_monoid_add) spmatrix \<Rightarrow> 'a list list" where
  "sp_toarray A =
     map (\<lambda>i. map (\<lambda>j. sum_list (map (\<lambda>(r, c, v). v)
                                   (filter (\<lambda>(r, c, v). r = i \<and> c = j) (sp_entries A))))
                [0..<snd (sp_shape A)])
         [0..<fst (sp_shape A)]"

text \<open>
  \<open>A.resize(shape)\<close>, in place: the entries inside the new shape stay where they are, the
  others are removed.
\<close>

definition sp_resize :: "'a spmatrix \<Rightarrow> nat \<times> nat \<Rightarrow> 'a spmatrix" where
  "sp_resize A shape =
     \<lparr>sp_shape = shape,
      sp_entries = filter (\<lambda>(r, c, v). r < fst shape \<and> c < snd shape) (sp_entries A)\<rparr>"

text \<open>
  The graph collaborator, by what the module asks of it: \<open>number_of_nodes()\<close>,
  \<open>node_features(nodes())\<close> (one row per node, \<open>g_feature_size\<close> columns) and
  \<open>to_adjacency_matrix()\<close>. \<open>graph_wf\<close> says that the three agree on the number of nodes.
\<close>

record 'a graph =
  g_number_of_nodes :: nat
  g_feature_size :: nat
  g_node_features :: "'a list list"
  g_adjacency :: "'a spmatrix"


section \<open>numpy and built-in helpers of \<open>GraphSequence\<close>\<close>

text \<open>\<open>max(xs)\<close> of a list of node counts; \<open>max([])\<close> raises \<open>ValueError\<close>.\<close>

definition py_max :: "nat list \<Rightarrow> py_error + nat" where
  "py_max xs = (case xs of [] \<Rightarrow> Inl ValueError | x # rest \<Rightarrow> Inr (fold max rest x))"

text \<open>
  \<open>np.pad(m, pad_width=((0, k), (0, 0)))\<close> on a matrix of the given width: \<open>k\<close> rows of
  zeros are appended, the width is unchanged.
\<close>

definition np_pad_rows :: "('a::zero) list list \<Rightarrow> nat \<Rightarrow> nat \<Rightarrow> 'a list list" where
  "np_pad_rows m width k = m @ replicate k (replicate width 0)"

text \<open>
  \<open>np.stack(arrays)\<close>, given the arrays and their shapes: \<open>ValueError\<close> when there is no
  array or when two shapes differ.
\<close>

definition np_stack :: "(nat \<times> nat) list \<Rightarrow> 'b list \<Rightarrow> py_error + 'b list" where
  "np_stack shapes arrays =
     (if arrays = [] then Inl ValueError
      else if list_all (\<lambda>sh. sh = hd shapes) shapes then Inr arrays
      else Inl ValueError)"

text \<open>
  The effect on a list of \<open>for x in xs[start:stop]: x.mutate()\<close>: the objects of the
  slice are the objects of the list, so the list holds the mutated objects afterwards.
\<close>

definition py_slice_start :: "'a list \<Rightarrow> int \<Rightarrow> nat" where
  "py_slice_start xs start =
     nat (if start < 0 then max (start + int (length xs)) 0 else min start (int (length xs)))"

definition mutate_slice :: "'a list \<Rightarrow> int \<Rightarrow> int \<Rightarrow> ('a \<Rightarrow> 'a) \<Rightarrow> 'a list" where
  "mutate_slice xs start stop f =
     take (py_slice_start xs start) xs
     @ map f (py_slice xs start stop)
     @ drop (py_slice_start xs start + length (py_slice xs start stop)) xs"

section \<open>\<open>GraphSequence\<close>\<close>

text \<open>
  Field \<open>gs_x\<close> is \<open>self.x\<close>. \<open>gs_normalized_adjs\<close> is the list of cached adjacency
  matrices, one per graph.
\<close>

record ('a, 'tgt) GraphSequence =
  gs_name :: "string option"
  gs_graphs :: "'a graph list"
  gs_normalize_adj :: bool
  gs_targets :: "'tgt list option"
  gs_batch_size :: int
  gs_normalized_adjs :: "'a spmatrix list"

text \<open>
  \<open>on_epoch_end\<close>: \<open>random.shuffle\<close> draws on the generator of the process, whose
  state \<open>'g\<close> is passed in and returned; \<open>random_shuffle\<close> is that function. Graphs,
  cached matrices and targets are reordered by the same index list.
\<close>

definition GraphSequence_on_epoch_end ::
  "('g \<Rightarrow> nat list \<Rightarrow> nat list \<times> 'g) \<Rightarrow> ('a, 'tgt) GraphSequence \<Rightarrow> 'g
     \<Rightarrow> py_error + (('a, 'tgt) GraphSequence \<times> 'g)" where
  "GraphSequence_on_epoch_end random_shuffle s g =
     (case random_shuffle g [0..<length (gs_graphs s)] of
        (indexes, g') \<Rightarrow>
          (case py_take (gs_graphs s) indexes of
             Inl e \<Rightarrow> Inl e
           | Inr graphs \<Rightarrow>
               (case py_take (gs_normalized_adjs s) indexes of
                  Inl e \<Rightarrow> Inl e
                | Inr adjs \<Rightarrow>
                    (case gs_targets s of
                       None \<Rightarrow> Inr (s\<lparr>gs_graphs := graphs, gs_normalized_adjs := adjs\<rparr>, g')
                     | Some t \<Rightarrow>
                         (case py_take t indexes of
                            Inl e \<Rightarrow> Inl e
                          | Inr t' \<Rightarrow>
                              Inr (s\<lparr>gs_graphs := graphs, gs_normalized_adjs := adjs,
                                     gs_targets := Some t'\<rparr>, g'))))))"

text \<open>
  \<open>__init__\<close>. \<open>normalize_adj\<close> (of \<open>stellargraph.core.utils\<close>) is a parameter. The two
  branches on \<open>normalize\<close> assign two different attributes, \<open>normalized_adjs\<close> and
  \<open>normalize_adjs\<close>; the next statement reads \<open>self.normalized_adjs\<close>, which raises
  \<open>AttributeError\<close> when it was not assigned.
\<close>

definition GraphSequence_init ::
  "('a spmatrix \<Rightarrow> 'a spmatrix) \<Rightarrow> ('g \<Rightarrow> nat list \<Rightarrow> nat list \<times> 'g) \<Rightarrow> 'g
     \<Rightarrow> 'a graph list \<Rightarrow> 'tgt list option \<Rightarrow> bool \<Rightarrow> int \<Rightarrow> string option
     \<Rightarrow> py_error + (('a, 'tgt) GraphSequence \<times> 'g)" where
  "GraphSequence_init normalize_adj random_shuffle g graphs targets normalize' batch_size name =
     (if (case targets of None \<Rightarrow> False | Some t \<Rightarrow> length graphs \<noteq> length t)
      then Inl ValueError
      else
        let normalized_adjs =
              (if normalize' then Some (map (\<lambda>graph. normalize_adj (g_adjacency graph)) graphs)
               else None);
            normalize_adjs =
              (if normalize' then None else Some (map (\<lambda>graph. g_adjacency graph) graphs))
        in case normalized_adjs of
             None \<Rightarrow> Inl AttributeError
           | Some adjs \<Rightarrow>
               GraphSequence_on_epoch_end random_shuffle
                 \<lparr>gs_name = name, gs_graphs = graphs, gs_normalize_adj = normalize',
                  gs_targets = targets, gs_batch_size = batch_size,
                  gs_normalized_adjs = adjs\<rparr> g)"

definition GraphSequence_len ::
  "(real \<Rightarrow> real) \<Rightarrow> ('a, 'tgt) GraphSequence \<Rightarrow> py_error + int" where
  "GraphSequence_len fl s = ceil_div fl (int (length (gs_graphs s))) (gs_batch_size s)"

text \<open>
  \<open>__getitem__\<close> returns \<open>[features, masks, adj_graphs], graph_targets\<close>, and it resizes
  the cached matrices of the batch in place, so the object after the call is returned as
  well. Every error is raised before the first resize.
\<close>

definition GraphSequence_getitem ::
  "('a::comm_monoid_add, 'tgt) GraphSequence \<Rightarrow> int
     \<Rightarrow> py_error + ((('a list list list \<times> bool list list \<times> 'a list list list) \<times> 'tgt list option)
                     \<times> ('a, 'tgt) GraphSequence)" where
  "GraphSequence_getitem s index =
     (let batch_start = index * gs_batch_size s;
          batch_end = (index + 1) * gs_batch_size s;
          graphs = py_slice (gs_graphs s) batch_start batch_end;
          adj_graphs = py_slice (gs_normalized_adjs s) batch_start batch_end
      in case py_max (map g_number_of_nodes graphs) of
           Inl e \<Rightarrow> Inl e
         | Inr max_nodes \<Rightarrow>
             (let graph_targets =
                    map_option (\<lambda>t. py_slice t batch_start batch_end) (gs_targets s);
                  padded = map (\<lambda>graph. np_pad_rows (g_node_features graph) (g_feature_size graph)
                                           (max_nodes - g_number_of_nodes graph)) graphs
              in case np_stack (map (\<lambda>graph. (length (g_node_features graph)
                                                + (max_nodes - g_number_of_nodes graph),
                                              g_feature_size graph)) graphs) padded of
                   Inl e \<Rightarrow> Inl e
                 | Inr features \<Rightarrow>
                     (let resized = map (\<lambda>adj. sp_resize adj (max_nodes, max_nodes)) adj_graphs;
                          s' = s\<lparr>gs_normalized_adjs :=
                                  mutate_slice (gs_normalized_adjs s) batch_start batch_end
                                    (\<lambda>adj. sp_resize adj (max_nodes, max_nodes))\<rparr>
                      in case np_stack (map sp_shape resized) (map sp_toarray resized) of
                           Inl e \<Rightarrow> Inl e
                         | Inr adjs \<Rightarrow>
                             (let masks = map (\<lambda>graph.
                                      replicate (min (g_number_of_nodes graph) max_nodes) True
                                      @ replicate (max_nodes - g_number_of_nodes graph) False) graphs
                              in Inr (((features, masks, adjs), graph_targets), s')))))"





section \<open>Verification\<close>


subsection \<open>Slices, index reads and the batch count\<close>

lemma concat_slices:
  "concat (map (\<lambda>i. take B (drop (i * B) xs)) [0..<k]) = take (k * B) xs"
proof (induction k)
  case 0
  show ?case by simp
next
  case (Suc k)
  have "Suc k * B = k * B + B" by simp
  then have "take (Suc k * B) xs = take (k * B) xs @ take B (drop (k * B) xs)"
    by (simp only: take_add)
  with Suc show ?case by simp
qed

lemma py_slice_nat:
  "py_slice xs (int a) (int a + int b) = take b (drop a xs)"
  by (auto simp: py_slice_def Let_def min_def nat_diff_distrib nat_add_distrib)

lemma py_take_in_range:
  "\<forall>i\<in>set idx. i < length xs \<Longrightarrow> py_take xs idx = Inr (map (\<lambda>i. xs ! i) idx)"
  by (simp add: py_take_def list_all_iff)

lemma ceiling_bounds:
  assumes "0 < b" "0 \<le> n"
  shows "0 \<le> \<lceil>real_of_int n / real_of_int b\<rceil>"
    and "n \<le> \<lceil>real_of_int n / real_of_int b\<rceil> * b"
    and "i < nat \<lceil>real_of_int n / real_of_int b\<rceil> \<Longrightarrow> b * int i < n"
proof -
  let ?c = "\<lceil>real_of_int n / real_of_int b\<rceil>"
  have "0 \<le> real_of_int n / real_of_int b" using assms by simp
  then have "\<lceil>0::real\<rceil> \<le> ?c" by (rule ceiling_mono)
  then show "0 \<le> ?c" by simp
  show "n \<le> ?c * b"
  proof -
    have "real_of_int n / real_of_int b \<le> real_of_int ?c" by (rule le_of_int_ceiling)
    then have "real_of_int n / real_of_int b * real_of_int b \<le> real_of_int ?c * real_of_int b"
      using assms by (intro mult_right_mono) simp_all
    then have "real_of_int n \<le> real_of_int ?c * real_of_int b"
      using assms by simp
    then have "real_of_int n \<le> real_of_int (?c * b)" by simp
    then show ?thesis by (simp only: of_int_le_iff)
  qed
  show "b * int i < n" if "i < nat ?c"
  proof -
    from that have "int i < ?c" by linarith
    then have "real_of_int (int i) < real_of_int n / real_of_int b"
      by (simp only: less_ceiling_iff)
    then have "real_of_int (int i) * real_of_int b < real_of_int n / real_of_int b * real_of_int b"
      using assms by (intro mult_strict_right_mono) simp_all
    then have "real_of_int (int i) * real_of_int b < real_of_int n"
      using assms by simp
    then have "real_of_int (int i * b) < real_of_int n" by simp
    then have "int i * b < n" by (simp only: of_int_less_iff)
    then show ?thesis by (simp add: mult.commute)
  qed
qed

text \<open>
  In the range of sizes that occur, the double quotient has the ceiling of the exact
  quotient.
\<close>

lemma ceiling_double:
  assumes dr: "double_rounding fl"
    and b: "0 < b" "b \<le> 2 ^ 1022"
    and n: "0 \<le> n" "n < 2 ^ 53"
  shows "\<lceil>fl (real_of_int n / real_of_int b)\<rceil> = \<lceil>real_of_int n / real_of_int b\<rceil>"
proof -
  let ?q = "real_of_int n / real_of_int b"
  let ?k = "\<lceil>?q\<rceil>"
  from dr have mono: "\<And>x y. x \<le> y \<Longrightarrow> fl x \<le> fl y"
    and exact: "\<And>k::int. \<bar>k\<bar> \<le> 2 ^ 53 \<Longrightarrow> fl (real_of_int k) = real_of_int k"
    and rel: "\<And>x. 1 / 2 ^ 1022 \<le> \<bar>x\<bar> \<Longrightarrow> \<bar>x\<bar> \<le> 2 ^ 1023 \<Longrightarrow> \<bar>fl x - x\<bar> \<le> \<bar>x\<bar> / 2 ^ 53"
    by (simp_all add: double_rounding_def)
  have rb: "0 < real_of_int b" "1 \<le> real_of_int b" using b by simp_all
  have q0: "0 \<le> ?q" using n rb by simp
  have "?q \<le> real_of_int n / 1"
    using n rb by (intro divide_left_mono) simp_all
  then have qn: "?q \<le> real_of_int n" by simp
  then have kn: "?k \<le> n" by (simp only: ceiling_le_iff)
  have k0: "0 \<le> ?k" using ceiling_bounds(1) [OF b(1) n(1)] .
  from kn k0 n have "\<bar>?k\<bar> \<le> 2 ^ 53" by linarith
  then have fk: "fl (real_of_int ?k) = real_of_int ?k" by (rule exact)
  have "fl ?q \<le> fl (real_of_int ?k)" by (rule mono) (rule le_of_int_ceiling)
  then have upper: "fl ?q \<le> real_of_int ?k" by (simp only: fk)
  have lower: "real_of_int ?k - 1 < fl ?q"
  proof (cases "n = 0")
    case True
    have "fl (real_of_int 0) = real_of_int 0" by (rule exact) simp
    with True show ?thesis by simp
  next
    case False
    with n have n1: "1 \<le> real_of_int n" by simp
    have "1 / 2 ^ 1022 \<le> 1 / real_of_int b"
    proof -
      have "real_of_int b \<le> real_of_int (2 ^ 1022)" using b(2) by (simp only: of_int_le_iff)
      then have "real_of_int b \<le> 2 ^ 1022" by (simp only: of_int_power of_int_numeral)
      with rb show ?thesis by (intro divide_left_mono) simp_all
    qed
    also have "1 / real_of_int b \<le> ?q" using n1 rb by (intro divide_right_mono) simp_all
    finally have "1 / 2 ^ 1022 \<le> ?q" .
    then have lo: "1 / 2 ^ 1022 \<le> \<bar>?q\<bar>" using q0 by (simp only: abs_of_nonneg)
    have "real_of_int n < real_of_int (2 ^ 53)" using n(2) by (simp only: of_int_less_iff)
    then have n53: "real_of_int n < 2 ^ 53" by (simp only: of_int_power of_int_numeral)
    have "(2::real) ^ 53 \<le> 2 ^ 1023" by (rule power_increasing) simp_all
    with n53 have "real_of_int n \<le> 2 ^ 1023" by (rule less_le_trans [THEN less_imp_le])
    with qn have "?q \<le> 2 ^ 1023" by (rule order_trans)
    then have hi: "\<bar>?q\<bar> \<le> 2 ^ 1023" using q0 by (simp only: abs_of_nonneg)
    from rel [OF lo hi] have "\<bar>fl ?q - ?q\<bar> \<le> ?q / 2 ^ 53" using q0 by (simp only: abs_of_nonneg)
    then have err: "?q - ?q / 2 ^ 53 \<le> fl ?q" by linarith
    have small: "?q / 2 ^ 53 < 1 / real_of_int b"
    proof -
      have "?q / 2 ^ 53 = (real_of_int n / 2 ^ 53) / real_of_int b" by simp
      also have "\<dots> < 1 / real_of_int b"
        using n53 rb by (intro divide_strict_right_mono) simp_all
      finally show ?thesis .
    qed
    have gap: "real_of_int ?k - 1 \<le> ?q - 1 / real_of_int b"
    proof -
      have "?k - 1 < ?k" by simp
      then have "real_of_int (?k - 1) < ?q" by (simp only: less_ceiling_iff)
      then have "real_of_int (?k - 1) * real_of_int b < ?q * real_of_int b"
        using rb by (intro mult_strict_right_mono) simp_all
      then have "real_of_int ((?k - 1) * b) < real_of_int n" using rb by simp
      then have "(?k - 1) * b < n" by (simp only: of_int_less_iff)
      then have "(?k - 1) * b \<le> n - 1" by simp
      then have "real_of_int ((?k - 1) * b) \<le> real_of_int (n - 1)" by (simp only: of_int_le_iff)
      then have "real_of_int (?k - 1) * real_of_int b \<le> real_of_int n - 1" by simp
      then have "real_of_int (?k - 1) \<le> (real_of_int n - 1) / real_of_int b"
        using rb by (simp add: pos_le_divide_eq)
      also have "\<dots> = ?q - 1 / real_of_int b" by (simp add: diff_divide_distrib)
      finally show ?thesis by simp
    qed
    from err small gap show ?thesis by linarith
  qed
  from lower upper show ?thesis by (rule ceiling_unique)
qed

lemma ceil_div_bounds:
  assumes "double_rounding fl" "0 < b" "b \<le> 2 ^ 1022" "0 \<le> n" "n < 2 ^ 53"
  shows "\<exists>k. ceil_div fl n b = Inr (int k) \<and> int k = \<lceil>real_of_int n / real_of_int b\<rceil>
     \<and> n \<le> int k * b \<and> (\<forall>i<k. b * int i < n)"
proof -
  let ?c = "\<lceil>real_of_int n / real_of_int b\<rceil>"
  note cb = ceiling_bounds [OF assms(2) assms(4)]
  have "ceil_div fl n b = Inr ?c"
    using assms(2) ceiling_double [OF assms] by (simp add: ceil_div_def)
  with cb show ?thesis
    by (intro exI [of _ "nat ?c"]) simp
qed

subsection \<open>The invariant of node and link sequences\<close>

lemma generator_shuffle_perm:
  assumes "\<And>r xs. mset (fst (sh r xs)) = mset xs"
  shows "mset (fst (generator_shuffle sh gen g xs)) = mset xs"
proof (cases gen)
  case (Own r)
  obtain ys r' where e: "sh r xs = (ys, r')" by (cases "sh r xs")
  from assms [of r xs] e have "mset ys = mset xs" by simp
  with Own e show ?thesis by (simp add: generator_shuffle_def)
next
  case ProcessWide
  obtain ys g' where e: "sh g xs = (ys, g')" by (cases "sh g xs")
  from assms [of g xs] e have "mset ys = mset xs" by simp
  with ProcessWide e show ?thesis by (simp add: generator_shuffle_def)
qed

lemma on_epoch_end_frame:
  "ns_targets (fst (NodeSequence_on_epoch_end sh s g)) = ns_targets s"
  "ns_sample_function (fst (NodeSequence_on_epoch_end sh s g)) = ns_sample_function s"
  "ns_ids (fst (NodeSequence_on_epoch_end sh s g)) = ns_ids s"
  "ns_data_size (fst (NodeSequence_on_epoch_end sh s g)) = ns_data_size s"
  "ns_shuffle (fst (NodeSequence_on_epoch_end sh s g)) = ns_shuffle s"
  "ns_batch_size (fst (NodeSequence_on_epoch_end sh s g)) = ns_batch_size s"
  by (simp_all add: NodeSequence_on_epoch_end_def Let_def split: prod.splits)

lemma on_epoch_end_indices:
  assumes "\<And>r xs. mset (fst (sh r xs)) = mset xs"
  shows "mset (ns_indices (fst (NodeSequence_on_epoch_end sh s g))) = mset [0..<nat (ns_data_size s)]"
proof (cases "ns_shuffle s")
  case False
  then show ?thesis by (simp add: NodeSequence_on_epoch_end_def Let_def)
next
  case True
  obtain idx gen g' where r:
    "generator_shuffle sh (ns_rs s) g [0..<nat (ns_data_size s)] = (idx, gen, g')"
    by (cases "generator_shuffle sh (ns_rs s) g [0..<nat (ns_data_size s)]")
  from generator_shuffle_perm [of sh "ns_rs s" g "[0..<nat (ns_data_size s)]", OF assms] r
  have "mset idx = mset [0..<nat (ns_data_size s)]" by simp
  with True r show ?thesis by (simp add: NodeSequence_on_epoch_end_def Let_def)
qed

lemma on_epoch_end_inv:
  assumes "\<And>r xs. mset (fst (sh r xs)) = mset xs"
    and "ns_data_size s = int (length (ns_ids s))"
    and "case ns_targets s of None \<Rightarrow> True | Some t \<Rightarrow> length t = length (ns_ids s)"
  shows "ns_inv (fst (NodeSequence_on_epoch_end sh s g))"
  using assms(2,3) on_epoch_end_indices [of sh s g, OF assms(1)]
  by (simp add: ns_inv_def on_epoch_end_frame cong: option.case_cong)

lemma init_inv:
  assumes "\<And>r xs. mset (fst (sh r xs)) = mset xs"
    and "NodeSequence_init mk sh sf B ids tg shf seed g = Inr (s, g')"
  shows "ns_inv s \<and> ns_ids s = ids \<and> ns_targets s = tg \<and> ns_batch_size s = B
     \<and> ns_sample_function s = sf \<and> ns_shuffle s = shf"
proof -
  let ?r = "\<lparr>ns_targets = tg, ns_sample_function = sf, ns_ids = ids,
              ns_data_size = int (length ids), ns_shuffle = shf,
              ns_batch_size = B, ns_rs = random_state mk seed, ns_indices = []\<rparr>"
  from assms(2) have ok: "\<not> (case tg of None \<Rightarrow> False | Some t \<Rightarrow> length ids \<noteq> length t)"
    and e: "NodeSequence_on_epoch_end sh ?r g = (s, g')"
    by (auto simp: NodeSequence_init_def split: if_splits)
  from e have s: "s = fst (NodeSequence_on_epoch_end sh ?r g)" by simp
  from ok have "case ns_targets ?r of None \<Rightarrow> True | Some t \<Rightarrow> length t = length (ns_ids ?r)"
    by (simp split: option.splits)
  then have "ns_inv (fst (NodeSequence_on_epoch_end sh ?r g))"
    by (intro on_epoch_end_inv assms(1)) simp_all
  then show ?thesis unfolding s by (simp add: on_epoch_end_frame)
qed

lemma step_inv:
  assumes "\<And>r xs. mset (fst (sh r xs)) = mset xs" and "ns_inv s"
  shows "ns_inv (fst (NodeSequence_step sh (s, g) e))
     \<and> ns_ids (fst (NodeSequence_step sh (s, g) e)) = ns_ids s
     \<and> ns_targets (fst (NodeSequence_step sh (s, g) e)) = ns_targets s
     \<and> ns_batch_size (fst (NodeSequence_step sh (s, g) e)) = ns_batch_size s
     \<and> ns_sample_function (fst (NodeSequence_step sh (s, g) e)) = ns_sample_function s
     \<and> ns_shuffle (fst (NodeSequence_step sh (s, g) e)) = ns_shuffle s"
proof (cases e)
  case (Call c)
  show ?thesis
  proof (cases c)
    case (GetItem i)
    with Call assms(2) show ?thesis by simp
  next
    case OnEpochEnd
    from assms(2) have "ns_inv (fst (NodeSequence_on_epoch_end sh s g))"
      by (intro on_epoch_end_inv assms(1)) (simp_all add: ns_inv_def)
    with Call OnEpochEnd show ?thesis by (simp add: on_epoch_end_frame)
  qed
next
  case (Elsewhere f)
  with assms(2) show ?thesis by simp
qed

lemma steps_inv:
  assumes "\<And>r xs. mset (fst (sh r xs)) = mset xs" and "ns_inv s"
  shows "ns_inv (fst (foldl (NodeSequence_step sh) (s, g) evs))
     \<and> ns_ids (fst (foldl (NodeSequence_step sh) (s, g) evs)) = ns_ids s
     \<and> ns_targets (fst (foldl (NodeSequence_step sh) (s, g) evs)) = ns_targets s
     \<and> ns_batch_size (fst (foldl (NodeSequence_step sh) (s, g) evs)) = ns_batch_size s
     \<and> ns_sample_function (fst (foldl (NodeSequence_step sh) (s, g) evs)) = ns_sample_function s
     \<and> ns_shuffle (fst (foldl (NodeSequence_step sh) (s, g) evs)) = ns_shuffle s"
  using assms(2)
proof (induction evs arbitrary: s g)
  case Nil
  then show ?case by simp
next
  case (Cons e evs)
  obtain t h where th: "NodeSequence_step sh (s, g) e = (t, h)"
    by (cases "NodeSequence_step sh (s, g) e")
  from step_inv [where sh = sh and g = g and e = e, OF assms(1) Cons.prems] th
  have t: "ns_inv t" "ns_ids t = ns_ids s" "ns_targets t = ns_targets s"
    "ns_batch_size t = ns_batch_size s" "ns_sample_function t = ns_sample_function s"
    "ns_shuffle t = ns_shuffle s" by simp_all
  from Cons.IH [OF t(1), where g = h] t th show ?case by simp
qed

lemma inv_getitem:
  assumes inv: "ns_inv s" and B: "0 < ns_batch_size s"
    and lt: "ns_batch_size s * int i < ns_data_size s"
  shows "NodeSequence_getitem s (int i) =
     Inr (ns_sample_function s
            (map (\<lambda>j. ns_ids s ! j) (take (nat (ns_batch_size s)) (drop (i * nat (ns_batch_size s)) (ns_indices s))))
            (int i),
          map_option (\<lambda>t. map (\<lambda>j. t ! j) (take (nat (ns_batch_size s)) (drop (i * nat (ns_batch_size s)) (ns_indices s))))
            (ns_targets s))"
proof -
  let ?b = "nat (ns_batch_size s)"
  let ?sl = "take ?b (drop (i * ?b) (ns_indices s))"
  have sl: "py_slice (ns_indices s) (ns_batch_size s * int i) (ns_batch_size s * int i + ns_batch_size s) = ?sl"
  proof -
    obtain b where b: "ns_batch_size s = int b" using B by (metis nonneg_int_cases less_imp_le)
    have "py_slice (ns_indices s) (int b * int i) (int b * int i + int b)
       = py_slice (ns_indices s) (int (i * b)) (int (i * b) + int b)" by (simp add: mult.commute)
    also have "\<dots> = take b (drop (i * b) (ns_indices s))" by (rule py_slice_nat)
    finally show ?thesis by (simp add: b)
  qed
  have "mset (ns_indices s) = mset [0..<length (ns_ids s)]"
    using inv by (simp add: ns_inv_def)
  then have "set (ns_indices s) = set [0..<length (ns_ids s)]"
    by (rule mset_eq_setD)
  then have rng: "\<forall>j\<in>set ?sl. j < length (ns_ids s)"
    by (auto dest!: in_set_takeD in_set_dropD)
  have h: "batch_head_ids s (int i) = Inr (map (\<lambda>j. ns_ids s ! j) ?sl)"
    unfolding batch_head_ids_def Let_def sl by (rule py_take_in_range [OF rng])
  have t: "batch_targets s (int i) = Inr (map_option (\<lambda>t. map (\<lambda>j. t ! j) ?sl) (ns_targets s))"
  proof (cases "ns_targets s")
    case None
    then show ?thesis by (simp add: batch_targets_def)
  next
    case (Some t)
    with inv have "length t = length (ns_ids s)" by (simp add: ns_inv_def)
    with rng have "py_take t ?sl = Inr (map (\<lambda>j. t ! j) ?sl)"
      by (intro py_take_in_range) simp
    with Some show ?thesis unfolding batch_targets_def Let_def sl by simp
  qed
  from lt show ?thesis by (simp add: NodeSequence_getitem_def h t)
qed

lemma LinkSequence_eqs:
  "LinkSequence_on_epoch_end = NodeSequence_on_epoch_end"
  "LinkSequence_init = NodeSequence_init"
  "LinkSequence_len = NodeSequence_len"
  "LinkSequence_getitem = NodeSequence_getitem"
proof -
  show e: "LinkSequence_on_epoch_end = NodeSequence_on_epoch_end"
    by (intro ext) (simp add: LinkSequence_on_epoch_end_def NodeSequence_on_epoch_end_def)
  show "LinkSequence_init = NodeSequence_init"
    by (intro ext) (simp add: LinkSequence_init_def NodeSequence_init_def e)
  show "LinkSequence_len = NodeSequence_len"
    by (intro ext) (simp add: LinkSequence_len_def NodeSequence_len_def)
  show "LinkSequence_getitem = NodeSequence_getitem"
    by (intro ext) (simp add: LinkSequence_getitem_def NodeSequence_getitem_def)
qed

lemma LinkSequence_step_eq: "LinkSequence_step sh p e = NodeSequence_step sh p e"
proof (cases p)
  case (Pair s g)
  show ?thesis
  proof (cases e)
    case (Call c)
    with Pair show ?thesis by (cases c) (simp_all add: LinkSequence_eqs)
  next
    case (Elsewhere f)
    with Pair show ?thesis by simp
  qed
qed

lemma LinkSequence_steps_eq:
  "foldl (LinkSequence_step sh) p evs = foldl (NodeSequence_step sh) p evs"
  by (induction evs arbitrary: p) (simp_all add: LinkSequence_step_eq)

lemma mset_map_nth_perm:
  assumes "mset idx = mset [0..<length xs]"
  shows "mset (map (\<lambda>j. xs ! j) idx) = mset xs"
proof -
  have "mset (map (\<lambda>j. xs ! j) idx) = image_mset (\<lambda>j. xs ! j) (mset idx)" by simp
  also have "\<dots> = image_mset (\<lambda>j. xs ! j) (mset [0..<length xs])" by (simp only: assms)
  also have "\<dots> = mset (map (\<lambda>j. xs ! j) [0..<length xs])" by simp
  also have "\<dots> = mset xs" by (simp only: map_nth)
  finally show ?thesis .
qed

lemma reachable_batches:
  assumes shuf: "\<And>r xs. mset (fst (rs_shuffle r xs)) = mset xs"
    and fl: "double_rounding fl"
    and B: "0 < batch_size" "batch_size \<le> 2 ^ 1022"
    and N: "int (length ids) < 2 ^ 53"
    and init: "NodeSequence_init seeded rs_shuffle sf batch_size ids targets shuffle seed g0 = Inr (s0, g1)"
    and s: "s = fst (foldl (NodeSequence_step rs_shuffle) (s0, g1) evs)"
  shows "\<exists>k. NodeSequence_len fl s = Inr (int k)
     \<and> int k = \<lceil>real (length ids) / real_of_int batch_size\<rceil>
     \<and> (\<forall>i<k. NodeSequence_getitem s (int i) =
           Inr (sf (map (\<lambda>j. ids ! j) (take (nat batch_size) (drop (i * nat batch_size) (ns_indices s)))) (int i),
                map_option (\<lambda>t. map (\<lambda>j. t ! j) (take (nat batch_size) (drop (i * nat batch_size) (ns_indices s)))) targets))
     \<and> concat (map (\<lambda>i. take (nat batch_size) (drop (i * nat batch_size) (ns_indices s))) [0..<k]) = ns_indices s
     \<and> mset (ns_indices s) = mset [0..<length ids]
     \<and> mset (concat (map (\<lambda>i. map (\<lambda>j. ids ! j) (take (nat batch_size) (drop (i * nat batch_size) (ns_indices s)))) [0..<k])) = mset ids"
proof -
  let ?b = "nat batch_size"
  let ?sl = "\<lambda>i. take ?b (drop (i * ?b) (ns_indices s))"
  from init_inv [where sh = rs_shuffle, OF shuf init]
  have i0: "ns_inv s0" and f0: "ns_ids s0 = ids" "ns_targets s0 = targets"
    "ns_batch_size s0 = batch_size" "ns_sample_function s0 = sf" by simp_all
  from steps_inv [where sh = rs_shuffle and g = g1 and evs = evs, OF shuf i0] s f0
  have inv: "ns_inv s" and f: "ns_ids s = ids" "ns_targets s = targets"
    "ns_batch_size s = batch_size" "ns_sample_function s = sf" by simp_all
  from inv f have ds: "ns_data_size s = int (length ids)"
    and perm: "mset (ns_indices s) = mset [0..<length ids]" by (simp_all add: ns_inv_def)
  from perm have "length (ns_indices s) = length [0..<length ids]" by (rule mset_eq_length)
  then have li: "length (ns_indices s) = length ids" by simp
  have n0: "0 \<le> int (length ids)" by simp
  from ceil_div_bounds [OF fl B n0 N]
  obtain k where k: "ceil_div fl (int (length ids)) batch_size = Inr (int k)"
    "int k = \<lceil>real_of_int (int (length ids)) / real_of_int batch_size\<rceil>"
    "int (length ids) \<le> int k * batch_size"
    "\<forall>i<k. batch_size * int i < int (length ids)" by auto
  have c1: "NodeSequence_len fl s = Inr (int k)"
    by (simp add: NodeSequence_len_def ds f k(1))
  have c2: "int k = \<lceil>real (length ids) / real_of_int batch_size\<rceil>"
    using k(2) by simp
  have c3: "NodeSequence_getitem s (int i) =
      Inr (sf (map (\<lambda>j. ids ! j) (?sl i)) (int i), map_option (\<lambda>t. map (\<lambda>j. t ! j) (?sl i)) targets)"
    if "i < k" for i
  proof -
    from that k(4) have "ns_batch_size s * int i < ns_data_size s" by (simp add: f ds)
    from inv_getitem [OF inv _ this] B show ?thesis by (simp add: f)
  qed
  have "int (length ids) \<le> int (k * ?b)" using k(3) B by simp
  then have "length (ns_indices s) \<le> k * ?b" using li by linarith
  then have c4: "concat (map ?sl [0..<k]) = ns_indices s"
    by (simp add: concat_slices)
  have "concat (map (\<lambda>i. map (\<lambda>j. ids ! j) (?sl i)) [0..<k])
      = map (\<lambda>j. ids ! j) (concat (map ?sl [0..<k]))"
    by (simp add: map_concat comp_def)
  then have c6: "mset (concat (map (\<lambda>i. map (\<lambda>j. ids ! j) (?sl i)) [0..<k])) = mset ids"
    using mset_map_nth_perm [OF perm] by (simp only: c4)
  from c1 c2 c3 c4 perm c6 show ?thesis by blast
qed

text \<open>
  Claim C2, as the code has it. A node or link sequence built over \<open>N < 2^53\<close> identifiers
  with a batch size \<open>B\<close>, \<open>0 < B \<le> 2^1022\<close>, reports \<open>ceil(N / B)\<close> batches, at construction
  and after any calls on it. Batch \<open>i\<close> hands the sampling function the identifiers at
  positions \<open>[i * B, (i + 1) * B)\<close> of the current index permutation; the slices of batches
  \<open>0 .. len - 1\<close>, one after the other, are the whole permutation, so every identifier is
  served exactly once per epoch.
\<close>

theorem per_entity_batches_partition:
  assumes shuf: "\<And>r xs. mset (fst (rs_shuffle r xs)) = mset xs"
    and fl: "double_rounding fl"
    and B: "0 < batch_size" "batch_size \<le> 2 ^ 1022"
    and N: "int (length ids) < 2 ^ 53"
    and init: "NodeSequence_init seeded rs_shuffle sf batch_size ids targets shuffle seed g0 = Inr (s0, g1)
       \<or> LinkSequence_init seeded rs_shuffle sf batch_size ids targets shuffle seed g0 = Inr (s0, g1)"
    and s: "s = fst (foldl (NodeSequence_step rs_shuffle) (s0, g1) evs)
       \<or> s = fst (foldl (LinkSequence_step rs_shuffle) (s0, g1) evs)"
  shows "\<exists>k. NodeSequence_len fl s = Inr (int k) \<and> LinkSequence_len fl s = Inr (int k)
     \<and> int k = \<lceil>real (length ids) / real_of_int batch_size\<rceil>
     \<and> (\<forall>i<k. NodeSequence_getitem s (int i) =
           Inr (sf (map (\<lambda>j. ids ! j) (take (nat batch_size) (drop (i * nat batch_size) (ns_indices s)))) (int i),
                map_option (\<lambda>t. map (\<lambda>j. t ! j) (take (nat batch_size) (drop (i * nat batch_size) (ns_indices s)))) targets)
         \<and> LinkSequence_getitem s (int i) = NodeSequence_getitem s (int i))
     \<and> concat (map (\<lambda>i. take (nat batch_size) (drop (i * nat batch_size) (ns_indices s))) [0..<k]) = ns_indices s
     \<and> mset (ns_indices s) = mset [0..<length ids]
     \<and> mset (concat (map (\<lambda>i. map (\<lambda>j. ids ! j) (take (nat batch_size) (drop (i * nat batch_size) (ns_indices s)))) [0..<k])) = mset ids"
proof -
  from init have i: "NodeSequence_init seeded rs_shuffle sf batch_size ids targets shuffle seed g0 = Inr (s0, g1)"
    by (simp add: LinkSequence_eqs)
  from s have e: "s = fst (foldl (NodeSequence_step rs_shuffle) (s0, g1) evs)"
    by (simp add: LinkSequence_steps_eq)
  from reachable_batches [where rs_shuffle = rs_shuffle, OF shuf fl B N i e] show ?thesis
    by (simp add: LinkSequence_eqs)
qed

theorem per_entity_batches_partition_witness:
  "\<exists>s0 g1 s k.
     double_rounding (\<lambda>x. x)
     \<and> NodeSequence_init (\<lambda>v. v) (\<lambda>r xs. (drop r xs @ take r xs, Suc r)) (\<lambda>h i. h) 2
        [10, 20, 30, 40, 50 :: nat] (Some [1, 2, 3, 4, 5 :: nat]) True (Some (1 :: nat)) (0 :: nat)
        = Inr (s0, g1)
     \<and> s = fst (foldl (NodeSequence_step (\<lambda>r xs. (drop r xs @ take r xs, Suc r))) (s0, g1)
               [Call OnEpochEnd])
     \<and> NodeSequence_len (\<lambda>x. x) s = Inr (int k) \<and> k = 3
     \<and> ns_indices s = [2, 3, 4, 0, 1]
     \<and> NodeSequence_getitem s 0 = Inr ([30, 40], Some [3, 4])
     \<and> NodeSequence_getitem s 1 = Inr ([50, 10], Some [5, 1])
     \<and> NodeSequence_getitem s 2 = Inr ([20], Some [2])
     \<and> concat (map (\<lambda>i. take (nat 2) (drop (i * nat 2) (ns_indices s))) [0..<k]) = ns_indices s
     \<and> mset (concat (map (\<lambda>i. map (\<lambda>j. [10, 20, 30, 40, 50 :: nat] ! j)
            (take (nat 2) (drop (i * nat 2) (ns_indices s)))) [0..<k])) = mset [10, 20, 30, 40, 50]"
proof -
  let ?shuf = "\<lambda>(r::nat) (xs::nat list). (drop r xs @ take r xs, Suc r)"
  let ?init = "NodeSequence_init (\<lambda>v. v) ?shuf (\<lambda>h i. h) 2
        [10, 20, 30, 40, 50 :: nat] (Some [1, 2, 3, 4, 5 :: nat]) True (Some (1 :: nat)) (0 :: nat)"
  have p: "mset (fst (?shuf r xs)) = mset xs" for r xs
  proof -
    have a: "mset (take r xs) + mset (drop r xs) = mset xs" by (simp flip: mset_append)
    have "mset (fst (?shuf r xs)) = mset (drop r xs) + mset (take r xs)" by simp
    also have "\<dots> = mset (take r xs) + mset (drop r xs)" by (rule add.commute)
    finally show ?thesis using a by simp
  qed
  have d: "double_rounding (\<lambda>x. x)" by (simp add: double_rounding_def)
  have B: "(0::int) < 2" "(2::int) \<le> 2 ^ 1022" by simp_all
  have N: "int (length [10, 20, 30, 40, 50 :: nat]) < 2 ^ 53" by simp
  obtain s0 g1 where i: "?init = Inr (s0, g1)"
    by (cases "projr ?init") (simp add: NodeSequence_init_def)
  define s where "s = fst (foldl (NodeSequence_step ?shuf) (s0, g1) [Call OnEpochEnd])"
  from i have s0: "(s0, g1) = projr ?init" by simp
  have idx: "ns_indices s = [2, 3, 4, 0, 1]"
    unfolding s_def s0
    by (simp add: NodeSequence_init_def NodeSequence_on_epoch_end_def random_state_def
        generator_shuffle_def upt_rec)
  from per_entity_batches_partition [where rs_shuffle = ?shuf, OF p d B N disjI1 [OF i] disjI1 [OF s_def]]
  obtain k where k: "NodeSequence_len (\<lambda>x. x) s = Inr (int k)"
    "int k = \<lceil>real (length [10, 20, 30, 40, 50 :: nat]) / real_of_int 2\<rceil>"
    "\<forall>i<k. NodeSequence_getitem s (int i) =
           Inr (map (\<lambda>j. [10, 20, 30, 40, 50 :: nat] ! j) (take (nat 2) (drop (i * nat 2) (ns_indices s))),
                map_option (\<lambda>t. map (\<lambda>j. t ! j) (take (nat 2) (drop (i * nat 2) (ns_indices s)))) (Some [1, 2, 3, 4, 5 :: nat]))"
    "concat (map (\<lambda>i. take (nat 2) (drop (i * nat 2) (ns_indices s))) [0..<k]) = ns_indices s"
    "mset (concat (map (\<lambda>i. map (\<lambda>j. [10, 20, 30, 40, 50 :: nat] ! j)
            (take (nat 2) (drop (i * nat 2) (ns_indices s)))) [0..<k])) = mset [10, 20, 30, 40, 50]"
    by auto
  from k(2) have k3: "k = 3" by simp
  from k(3) [rule_format, of 0] k(3) [rule_format, of 1] k(3) [rule_format, of 2] k3
  have g: "NodeSequence_getitem s 0 = Inr ([30, 40], Some [3, 4])"
    "NodeSequence_getitem s 1 = Inr ([50, 10], Some [5, 1])"
    "NodeSequence_getitem s 2 = Inr ([20], Some [2])" by (simp_all add: idx)
  from d i s_def k(1) k3 idx g k(4,5) show ?thesis by blast
qed

text \<open>
  The claim without the bounds fails: one identifier and the batch size \<open>2^1075\<close>. The
  quotient \<open>1 / 2^1075\<close> is below half of the least positive double and rounds to \<open>0.0\<close>,
  so the reported length is \<open>0\<close>, where \<open>ceil(N / B) = 1\<close> and batch \<open>0\<close> holds the
  identifier. The rounding used here is exact, but for that underflow.
\<close>

theorem per_entity_length_counterexample:
  "double_rounding (\<lambda>x. if \<bar>x\<bar> \<le> 1 / 2 ^ 1075 then 0 else x)
   \<and> (\<exists>s g. NodeSequence_init (\<lambda>v. v) (\<lambda>r xs. (xs, r)) (\<lambda>h i. h) (2 ^ 1075)
          [7 :: nat] (None :: nat list option) False (None :: nat option) (0 :: nat) = Inr (s, g)
        \<and> NodeSequence_len (\<lambda>x. if \<bar>x\<bar> \<le> 1 / 2 ^ 1075 then 0 else x) s = Inr 0
        \<and> NodeSequence_getitem s 0 = Inr ([7], None))
   \<and> \<lceil>real (length [7 :: nat]) / real_of_int (2 ^ 1075)\<rceil> = (1 :: int)"
proof -
  let ?fl = "\<lambda>x::real. if \<bar>x\<bar> \<le> 1 / 2 ^ 1075 then 0 else x"
  let ?init = "NodeSequence_init (\<lambda>v. v) (\<lambda>r xs. (xs, r)) (\<lambda>h i. h) (2 ^ 1075)
          [7 :: nat] (None :: nat list option) False (None :: nat option) (0 :: nat)"
  have t0: "(0::real) < 1 / 2 ^ 1075" by simp
  have t1: "(1::real) / 2 ^ 1075 < 1"
  proof -
    have "(1::real) < 2 ^ 1075" by (rule one_less_power) simp_all
    then show ?thesis by simp
  qed
  have t2: "(1::real) / 2 ^ 1075 < 1 / 2 ^ 1022"
  proof -
    have "(2::real) ^ 1022 < 2 ^ 1075" by (rule power_strict_increasing) simp_all
    then show ?thesis by (intro divide_strict_left_mono) simp_all
  qed
  have mono: "?fl x \<le> ?fl y" if "x \<le> y" for x y
    using that t0 by (auto simp only: abs_le_iff split: if_splits)
  have exact: "?fl (real_of_int k) = real_of_int k" for k :: int
  proof (cases "k = 0")
    case True
    then show ?thesis by simp
  next
    case False
    then have "1 \<le> \<bar>k\<bar>" by simp
    then have "real_of_int 1 \<le> real_of_int \<bar>k\<bar>" by (simp only: of_int_le_iff)
    then have "1 \<le> \<bar>real_of_int k\<bar>" by simp
    with t1 have "\<not> \<bar>real_of_int k\<bar> \<le> 1 / 2 ^ 1075" by linarith
    then show ?thesis by (simp only: if_False)
  qed
  have rel: "\<bar>?fl x - x\<bar> \<le> \<bar>x\<bar> / 2 ^ 53" if "1 / 2 ^ 1022 \<le> \<bar>x\<bar>" for x :: real
  proof -
    from that t2 have "\<not> \<bar>x\<bar> \<le> 1 / 2 ^ 1075" by linarith
    then have "?fl x = x" by (simp only: if_False)
    then show ?thesis by simp
  qed
  have d: "double_rounding ?fl"
    unfolding double_rounding_def using mono exact rel by blast
  obtain s g where i: "?init = Inr (s, g)"
    by (cases "projr ?init") (simp add: NodeSequence_init_def)
  from i have s: "(s, g) = projr ?init" by simp
  then have s': "s = fst (projr ?init)" by (metis fst_conv)
  have "real_of_int 1 / real_of_int (2 ^ 1075) = (1::real) / 2 ^ 1075" by simp
  then have q: "?fl (real_of_int 1 / real_of_int (2 ^ 1075)) = 0" by (simp only: abs_of_pos [OF t0]) simp
  have "ns_data_size s = 1" "ns_batch_size s = 2 ^ 1075"
    unfolding s' by (simp_all add: NodeSequence_init_def NodeSequence_on_epoch_end_def)
  then have l: "NodeSequence_len ?fl s = Inr 0"
    using q by (simp add: NodeSequence_len_def ceil_div_def)
  have gi: "NodeSequence_getitem s 0 = Inr ([7], None)"
    unfolding s'
    by (simp add: NodeSequence_init_def NodeSequence_on_epoch_end_def NodeSequence_getitem_def
        batch_head_ids_def batch_targets_def py_slice_def py_take_def)
  have c: "\<lceil>real (length [7 :: nat]) / real_of_int (2 ^ 1075)\<rceil> = (1 :: int)"
  proof (rule ceiling_unique)
    show "real_of_int 1 - 1 < real (length [7 :: nat]) / real_of_int (2 ^ 1075)" by simp
    show "real (length [7 :: nat]) / real_of_int (2 ^ 1075) \<le> real_of_int 1" using t1 by simp
  qed
  from d i l gi c show ?thesis by blast
qed

subsection \<open>The on-demand link sequence\<close>

lemma od_on_epoch_end_frame:
  "od_length (OnDemandLinkSequence_on_epoch_end run s) = od_length s"
  "od_data_size (OnDemandLinkSequence_on_epoch_end run s) = od_data_size s"
  "od_batch_size (OnDemandLinkSequence_on_epoch_end run s) = od_batch_size s"
  "od_shuffle (OnDemandLinkSequence_on_epoch_end run s) = od_shuffle s"
  "od_sample_features (OnDemandLinkSequence_on_epoch_end run s) = od_sample_features s"
  by (simp_all add: OnDemandLinkSequence_on_epoch_end_def split: prod.splits)

lemma od_call_frame:
  "od_length (OnDemandLinkSequence_call run s c) = od_length s"
  "od_data_size (OnDemandLinkSequence_call run s c) = od_data_size s"
  "od_batch_size (OnDemandLinkSequence_call run s c) = od_batch_size s"
  "od_shuffle (OnDemandLinkSequence_call run s c) = od_shuffle s"
  by (cases c; simp add: od_on_epoch_end_frame)+

lemma od_calls_frame:
  "od_length (foldl (OnDemandLinkSequence_call run) s cs) = od_length s
   \<and> od_data_size (foldl (OnDemandLinkSequence_call run) s cs) = od_data_size s
   \<and> od_batch_size (foldl (OnDemandLinkSequence_call run) s cs) = od_batch_size s
   \<and> od_shuffle (foldl (OnDemandLinkSequence_call run) s cs) = od_shuffle s"
  by (induction cs arbitrary: s) (simp_all add: od_call_frame)

lemma od_init_fields:
  "od_length (OnDemandLinkSequence_init run sf B w sh) = int (length (fst (run w B)))"
  "od_data_size (OnDemandLinkSequence_init run sf B w sh)
     = sum_list (map (\<lambda>batch. int (length (fst batch))) (fst (run w B)))"
  "od_batches (OnDemandLinkSequence_init run sf B w sh) = fst (run w B)"
  "od_walker (OnDemandLinkSequence_init run sf B w sh) = snd (run w B)"
  "od_batch_size (OnDemandLinkSequence_init run sf B w sh) = B"
  "od_shuffle (OnDemandLinkSequence_init run sf B w sh) = sh"
  by (simp_all add: OnDemandLinkSequence_init_def OnDemandLinkSequence_create_batches_def
      Let_def split: prod.splits)

text \<open>
  Claim C10. The length that an \<open>OnDemandLinkSequence\<close> reports is the number of batches
  that the walker produced at construction, and the stored data size is the number of
  head identifiers in them, after any sequence of batch requests and epoch ends: an epoch
  end replaces the batch list (and advances the walker) only.
\<close>

theorem on_demand_length_fixed:
  "OnDemandLinkSequence_len
      (foldl (OnDemandLinkSequence_call run) (OnDemandLinkSequence_init run sf B w sh) cs)
     = int (length (fst (run w B)))
   \<and> od_data_size
      (foldl (OnDemandLinkSequence_call run) (OnDemandLinkSequence_init run sf B w sh) cs)
     = sum_list (map (\<lambda>batch. int (length (fst batch))) (fst (run w B)))"
  by (simp add: OnDemandLinkSequence_len_def od_calls_frame od_init_fields)

lemma on_demand_length_stale_example:
  "OnDemandLinkSequence_len
      (OnDemandLinkSequence_on_epoch_end (\<lambda>w b. (replicate w ([w], True), Suc w))
         (OnDemandLinkSequence_init (\<lambda>w b. (replicate w ([w], True), Suc w)) (\<lambda>h i. h) 2 (1::nat) True)) = 1
   \<and> length (od_batches
      (OnDemandLinkSequence_on_epoch_end (\<lambda>w b. (replicate w ([w], True), Suc w))
         (OnDemandLinkSequence_init (\<lambda>w b. (replicate w ([w], True), Suc w)) (\<lambda>h i. h) 2 (1::nat) True))) = 2"
  by (simp add: OnDemandLinkSequence_len_def OnDemandLinkSequence_on_epoch_end_def
      OnDemandLinkSequence_init_def OnDemandLinkSequence_create_batches_def)

lemma od_epochs_frame:
  "od_batch_size ((OnDemandLinkSequence_on_epoch_end run ^^ n) s) = od_batch_size s
   \<and> od_shuffle ((OnDemandLinkSequence_on_epoch_end run ^^ n) s) = od_shuffle s"
  by (induction n) (simp_all add: od_on_epoch_end_frame)

text \<open>
  Claim C6, as the code has it. At construction the walker is asked for the batches of
  the configured batch size. An epoch end asks it again, and stores what it returns,
  when the \<open>shuffle\<close> flag is set; when the flag is not set, an epoch end changes nothing:
  the batches of the construction are kept and the walker is not called.
\<close>

theorem on_demand_epoch_end_regenerates:
  "od_batches (OnDemandLinkSequence_init run sf B w sh) = fst (run w B)
   \<and> od_walker (OnDemandLinkSequence_init run sf B w sh) = snd (run w B)
   \<and> (od_shuffle s \<longrightarrow>
        od_batches ((OnDemandLinkSequence_on_epoch_end run ^^ Suc n) s)
          = fst (run (od_walker ((OnDemandLinkSequence_on_epoch_end run ^^ n) s)) (od_batch_size s))
        \<and> od_walker ((OnDemandLinkSequence_on_epoch_end run ^^ Suc n) s)
          = snd (run (od_walker ((OnDemandLinkSequence_on_epoch_end run ^^ n) s)) (od_batch_size s)))
   \<and> (\<not> od_shuffle s \<longrightarrow> (OnDemandLinkSequence_on_epoch_end run ^^ n) s = s)"
proof -
  let ?t = "(OnDemandLinkSequence_on_epoch_end run ^^ n) s"
  have a: "od_batches (OnDemandLinkSequence_on_epoch_end run ?t)
          = fst (run (od_walker ?t) (od_batch_size s))
        \<and> od_walker (OnDemandLinkSequence_on_epoch_end run ?t)
          = snd (run (od_walker ?t) (od_batch_size s))" if "od_shuffle s"
  proof -
    from that od_epochs_frame [where run = run and n = n and s = s]
    have "od_shuffle ?t" "od_batch_size ?t = od_batch_size s" by simp_all
    then show ?thesis
      by (simp add: OnDemandLinkSequence_on_epoch_end_def
          OnDemandLinkSequence_create_batches_def split: prod.splits)
  qed
  have b: "(OnDemandLinkSequence_on_epoch_end run ^^ n) s = s" if "\<not> od_shuffle s"
    using that by (induction n) (simp_all add: OnDemandLinkSequence_on_epoch_end_def)
  from a b show ?thesis by (simp add: od_init_fields)
qed

theorem on_demand_epoch_end_regenerates_witness:
  "od_batches (OnDemandLinkSequence_init (\<lambda>w b. (replicate w ([w], True), Suc w)) (\<lambda>h i. h) 2 (1::nat) True)
      = [([1], True)]
   \<and> od_batches ((OnDemandLinkSequence_on_epoch_end (\<lambda>w b. (replicate w ([w], True), Suc w)) ^^ Suc 0)
        (OnDemandLinkSequence_init (\<lambda>w b. (replicate w ([w], True), Suc w)) (\<lambda>h i. h) 2 (1::nat) True))
      = [([2], True), ([2], True)]
   \<and> (OnDemandLinkSequence_on_epoch_end (\<lambda>w b. (replicate w ([w], True), Suc w)) ^^ 3)
        (OnDemandLinkSequence_init (\<lambda>w b. (replicate w ([w], True), Suc w)) (\<lambda>h i. h) 2 (1::nat) False)
      = OnDemandLinkSequence_init (\<lambda>w b. (replicate w ([w], True), Suc w)) (\<lambda>h i. h) 2 (1::nat) False"
proof -
  let ?run = "\<lambda>(w::nat) (b::int). (replicate w ([w], True), Suc w)"
  let ?s = "OnDemandLinkSequence_init ?run (\<lambda>h i. h) 2 (1::nat) True"
  let ?u = "OnDemandLinkSequence_init ?run (\<lambda>h i. h) 2 (1::nat) False"
  have sh: "od_shuffle ?s" "\<not> od_shuffle ?u" by (simp_all add: od_init_fields)
  have w: "od_walker ?s = 2" "od_batch_size ?s = 2" by (simp_all add: od_init_fields)
  from on_demand_epoch_end_regenerates [of ?run "\<lambda>h i. h" 2 1 True ?s 0] sh(1) w
  have "od_batches ?s = [([1], True)]"
    "od_batches ((OnDemandLinkSequence_on_epoch_end ?run ^^ Suc 0) ?s) = [([2], True), ([2], True)]"
    by (simp_all add: numeral_2_eq_2)
  moreover from on_demand_epoch_end_regenerates [of ?run "\<lambda>h i. h" 2 1 False ?u 3] sh(2)
  have "(OnDemandLinkSequence_on_epoch_end ?run ^^ 3) ?u = ?u" by simp
  ultimately show ?thesis by simp
qed

theorem on_demand_epoch_end_counterexample:
  "\<not> (od_batches (OnDemandLinkSequence_on_epoch_end (\<lambda>w b. (replicate w ([w], True), Suc w))
          (OnDemandLinkSequence_init (\<lambda>w b. (replicate w ([w], True), Suc w)) (\<lambda>h i. h) 2 (1::nat) False))
        = fst ((\<lambda>w b. (replicate w ([w], True), Suc w))
            (od_walker (OnDemandLinkSequence_init (\<lambda>w b. (replicate w ([w], True), Suc w)) (\<lambda>h i. h) 2 (1::nat) False)) 2))"
  by (simp add: OnDemandLinkSequence_on_epoch_end_def OnDemandLinkSequence_init_def
      OnDemandLinkSequence_create_batches_def numeral_2_eq_2)

subsection \<open>Reproducible shuffling\<close>

lemma own_on_epoch_end:
  assumes "is_own (ns_rs s)"
  shows "snd (NodeSequence_on_epoch_end sh s g) = g"
    and "fst (NodeSequence_on_epoch_end sh s g) = fst (NodeSequence_on_epoch_end sh s h)"
    and "is_own (ns_rs (fst (NodeSequence_on_epoch_end sh s g)))"
proof -
  from assms obtain r where r: "ns_rs s = Own r" by (cases "ns_rs s") simp_all
  obtain ys r' where e: "sh r [0..<nat (ns_data_size s)] = (ys, r')"
    by (cases "sh r [0..<nat (ns_data_size s)]")
  from r e show "snd (NodeSequence_on_epoch_end sh s g) = g"
    by (simp add: NodeSequence_on_epoch_end_def Let_def generator_shuffle_def)
  from r e show "fst (NodeSequence_on_epoch_end sh s g) = fst (NodeSequence_on_epoch_end sh s h)"
    by (simp add: NodeSequence_on_epoch_end_def Let_def generator_shuffle_def)
  from r e show "is_own (ns_rs (fst (NodeSequence_on_epoch_end sh s g)))"
    by (simp add: NodeSequence_on_epoch_end_def Let_def generator_shuffle_def)
qed

lemma core_on_epoch_end:
  assumes "ns_core a = ns_core b"
  shows "ns_core (fst (NodeSequence_on_epoch_end sh a g)) = ns_core (fst (NodeSequence_on_epoch_end sh b g))"
proof -
  from assms have e: "ns_targets a = ns_targets b" "ns_ids a = ns_ids b"
    "ns_data_size a = ns_data_size b" "ns_shuffle a = ns_shuffle b"
    "ns_batch_size a = ns_batch_size b" "ns_rs a = ns_rs b" "ns_indices a = ns_indices b"
    by (simp_all add: ns_core_def)
  obtain idx gen g' where r:
    "generator_shuffle sh (ns_rs b) g [0..<nat (ns_data_size b)] = (idx, gen, g')"
    by (cases "generator_shuffle sh (ns_rs b) g [0..<nat (ns_data_size b)]")
  show ?thesis
    by (simp add: ns_core_def NodeSequence_on_epoch_end_def Let_def e r)
qed

text \<open>
  With a generator of its own, the object after a run of events is the object after as
  many epoch ends, whatever the state of the generator of the process was, and that
  generator is moved by the other code only.
\<close>

lemma own_run_gen:
  assumes E: "\<And>t g. is_own (ns_rs t) \<Longrightarrow>
      NodeSequence_on_epoch_end sh t g = (E t, g) \<and> is_own (ns_rs (E t))"
    and "is_own (ns_rs s)"
  shows "foldl (NodeSequence_step sh) (s, g) evs
     = ((E ^^ length (filter is_epoch_end evs)) s, foldl elsewhere g evs)"
  using assms(2)
proof (induction evs arbitrary: s g)
  case Nil
  show ?case by simp
next
  case (Cons e evs)
  show ?case
  proof (cases e)
    case (Elsewhere f)
    with Cons.IH [OF Cons.prems, where g = "f g"] show ?thesis by simp
  next
    case (Call c)
    show ?thesis
    proof (cases c)
      case (GetItem i)
      with Call Cons.IH [OF Cons.prems, where g = g] show ?thesis by simp
    next
      case OnEpochEnd
      from E [OF Cons.prems, where g = g]
      have st: "NodeSequence_on_epoch_end sh s g = (E s, g)" and o: "is_own (ns_rs (E s))"
        by simp_all
      from Cons.IH [OF o, where g = g] Call OnEpochEnd st show ?thesis
        by (simp add: funpow_swap1)
    qed
  qed
qed

lemma own_run:
  assumes "is_own (ns_rs s)"
  shows "foldl (NodeSequence_step sh) (s, g) evs
     = (((\<lambda>t. fst (NodeSequence_on_epoch_end sh t h)) ^^ length (filter is_epoch_end evs)) s,
        foldl elsewhere g evs)"
proof (rule own_run_gen [OF _ assms], goal_cases)
  case (1 t g')
  note o = 1
  from own_on_epoch_end(1) [OF o, where sh = sh and g = g']
    own_on_epoch_end(2) [OF o, where sh = sh and g = g' and h = h]
  have "NodeSequence_on_epoch_end sh t g' = (fst (NodeSequence_on_epoch_end sh t h), g')"
    by (simp add: prod_eq_iff)
  moreover from own_on_epoch_end(3) [OF o, where sh = sh and g = h]
  have "is_own (ns_rs (fst (NodeSequence_on_epoch_end sh t h)))" .
  ultimately show ?case by simp
qed

lemma own_epochs_core:
  assumes "ns_core a = ns_core b"
  shows "ns_core (((\<lambda>t. fst (NodeSequence_on_epoch_end sh t h)) ^^ n) a)
     = ns_core (((\<lambda>t. fst (NodeSequence_on_epoch_end sh t h)) ^^ n) b)"
proof (induction n)
  case 0
  from assms show ?case by simp
next
  case (Suc n)
  from core_on_epoch_end [OF Suc, where sh = sh and g = h] show ?case by simp
qed

lemma seeded_init:
  assumes "NodeSequence_init mk sh sf B ids tg shf (Some seed) g = Inr (s, g')"
  shows "g' = g" and "is_own (ns_rs s)"
    and "s = fst (NodeSequence_on_epoch_end sh
            \<lparr>ns_targets = tg, ns_sample_function = sf, ns_ids = ids,
             ns_data_size = int (length ids), ns_shuffle = shf,
             ns_batch_size = B, ns_rs = Own (mk seed), ns_indices = []\<rparr> h)"
proof -
  let ?r = "\<lparr>ns_targets = tg, ns_sample_function = sf, ns_ids = ids,
             ns_data_size = int (length ids), ns_shuffle = shf,
             ns_batch_size = B, ns_rs = Own (mk seed), ns_indices = []\<rparr>"
  from assms have e: "NodeSequence_on_epoch_end sh ?r g = (s, g')"
    by (auto simp: NodeSequence_init_def random_state_def split: if_splits)
  have o: "is_own (ns_rs ?r)" by simp
  from own_on_epoch_end(1) [OF o, where sh = sh and g = g] e show "g' = g" by simp
  from own_on_epoch_end(3) [OF o, where sh = sh and g = g] e show "is_own (ns_rs s)" by simp
  from own_on_epoch_end(2) [OF o, where sh = sh and g = g and h = h] e
  show "s = fst (NodeSequence_on_epoch_end sh ?r h)" by simp
qed

lemma core_reads:
  assumes "ns_core a = ns_core b"
  shows "ns_indices a = ns_indices b" "ns_rs a = ns_rs b"
    "batch_head_ids a i = batch_head_ids b i" "batch_targets a i = batch_targets b i"
proof -
  from assms have e: "ns_indices a = ns_indices b" "ns_rs a = ns_rs b"
    "ns_targets a = ns_targets b" "ns_ids a = ns_ids b" "ns_batch_size a = ns_batch_size b"
    by (simp_all add: ns_core_def)
  show "ns_indices a = ns_indices b" "ns_rs a = ns_rs b" by (rule e)+
  show "batch_head_ids a i = batch_head_ids b i" unfolding batch_head_ids_def e by (rule refl)
  show "batch_targets a i = batch_targets b i" unfolding batch_targets_def e by (rule refl)
qed

text \<open>
  Claim C7. Two node (or link) sequences are built with the same seed, identifiers,
  targets, batch size and shuffle flag, in two processes whose own generators are in any
  two states, with any two sampling functions. Each is driven by any run of calls, between
  which other code draws from the generator of its process, and the two runs have the
  same number of epoch ends. Then the two objects hold the same index permutation and
  the same generator, and read the same identifiers and targets for every batch; and the
  objects neither read nor move the generator of the process.
\<close>

theorem seeded_shuffle_reproducible:
  assumes a: "NodeSequence_init seeded rs_shuffle sf1 batch_size ids targets shuffle (Some seed) g1 = Inr (a, g1')
       \<or> LinkSequence_init seeded rs_shuffle sf1 batch_size ids targets shuffle (Some seed) g1 = Inr (a, g1')"
    and b: "NodeSequence_init seeded rs_shuffle sf2 batch_size ids targets shuffle (Some seed) g2 = Inr (b, g2')
       \<or> LinkSequence_init seeded rs_shuffle sf2 batch_size ids targets shuffle (Some seed) g2 = Inr (b, g2')"
    and n: "length (filter is_epoch_end evs1) = length (filter is_epoch_end evs2)"
  shows "ns_indices (fst (foldl (NodeSequence_step rs_shuffle) (a, g1') evs1))
       = ns_indices (fst (foldl (NodeSequence_step rs_shuffle) (b, g2') evs2))
     \<and> ns_rs (fst (foldl (NodeSequence_step rs_shuffle) (a, g1') evs1))
       = ns_rs (fst (foldl (NodeSequence_step rs_shuffle) (b, g2') evs2))
     \<and> batch_head_ids (fst (foldl (NodeSequence_step rs_shuffle) (a, g1') evs1)) i
       = batch_head_ids (fst (foldl (NodeSequence_step rs_shuffle) (b, g2') evs2)) i
     \<and> batch_targets (fst (foldl (NodeSequence_step rs_shuffle) (a, g1') evs1)) i
       = batch_targets (fst (foldl (NodeSequence_step rs_shuffle) (b, g2') evs2)) i
     \<and> g1' = g1 \<and> g2' = g2
     \<and> snd (foldl (NodeSequence_step rs_shuffle) (a, g1') evs1) = foldl elsewhere g1 evs1
     \<and> snd (foldl (NodeSequence_step rs_shuffle) (b, g2') evs2) = foldl elsewhere g2 evs2
     \<and> foldl (LinkSequence_step rs_shuffle) (a, g1') evs1
       = foldl (NodeSequence_step rs_shuffle) (a, g1') evs1
     \<and> foldl (LinkSequence_step rs_shuffle) (b, g2') evs2
       = foldl (NodeSequence_step rs_shuffle) (b, g2') evs2"
proof -
  from a have a': "NodeSequence_init seeded rs_shuffle sf1 batch_size ids targets shuffle (Some seed) g1 = Inr (a, g1')"
    by (simp add: LinkSequence_eqs)
  from b have b': "NodeSequence_init seeded rs_shuffle sf2 batch_size ids targets shuffle (Some seed) g2 = Inr (b, g2')"
    by (simp add: LinkSequence_eqs)
  let ?ra = "\<lparr>ns_targets = targets, ns_sample_function = sf1, ns_ids = ids,
             ns_data_size = int (length ids), ns_shuffle = shuffle,
             ns_batch_size = batch_size, ns_rs = Own (seeded seed), ns_indices = []\<rparr>"
  let ?rb = "\<lparr>ns_targets = targets, ns_sample_function = sf2, ns_ids = ids,
             ns_data_size = int (length ids), ns_shuffle = shuffle,
             ns_batch_size = batch_size, ns_rs = Own (seeded seed), ns_indices = []\<rparr>"
  note ia = seeded_init(1) [OF a'] seeded_init(2) [OF a'] seeded_init(3) [OF a', where h = g1]
  note ib = seeded_init(1) [OF b'] seeded_init(2) [OF b'] seeded_init(3) [OF b', where h = g1]
  have "ns_core ?ra = ns_core ?rb" by (simp add: ns_core_def)
  from core_on_epoch_end [OF this, where sh = rs_shuffle and g = g1] ia(3) ib(3)
  have c0: "ns_core a = ns_core b" by simp
  let ?k = "length (filter is_epoch_end evs1)"
  from own_run [OF ia(2), where sh = rs_shuffle and g = g1' and evs = evs1 and h = g1]
  have ra: "foldl (NodeSequence_step rs_shuffle) (a, g1') evs1
     = (((\<lambda>t. fst (NodeSequence_on_epoch_end rs_shuffle t g1)) ^^ ?k) a, foldl elsewhere g1' evs1)" .
  from own_run [OF ib(2), where sh = rs_shuffle and g = g2' and evs = evs2 and h = g1] n
  have rb: "foldl (NodeSequence_step rs_shuffle) (b, g2') evs2
     = (((\<lambda>t. fst (NodeSequence_on_epoch_end rs_shuffle t g1)) ^^ ?k) b, foldl elsewhere g2' evs2)"
    by simp
  from own_epochs_core [OF c0, where sh = rs_shuffle and h = g1 and n = ?k]
  have c: "ns_core (fst (foldl (NodeSequence_step rs_shuffle) (a, g1') evs1))
      = ns_core (fst (foldl (NodeSequence_step rs_shuffle) (b, g2') evs2))"
    by (simp only: ra rb fst_conv)
  from core_reads(1) [OF c] core_reads(2) [OF c] core_reads(3) [OF c, where i = i]
    core_reads(4) [OF c, where i = i] ia(1) ib(1) ra rb show ?thesis
    by (simp add: LinkSequence_steps_eq)
qed

theorem seeded_shuffle_reproducible_witness:
  "\<exists>a b g1' g2'.
     NodeSequence_init (\<lambda>v. v) (\<lambda>r xs. (drop r xs @ take r xs, Suc r)) (\<lambda>h i. h) 2
        [10, 20, 30, 40, 50 :: nat] (None :: nat list option) True (Some (1 :: nat)) (0 :: nat)
        = Inr (a, g1')
     \<and> NodeSequence_init (\<lambda>v. v) (\<lambda>r xs. (drop r xs @ take r xs, Suc r)) (\<lambda>h i. rev h) 2
        [10, 20, 30, 40, 50 :: nat] (None :: nat list option) True (Some (1 :: nat)) (3 :: nat)
        = Inr (b, g2')
     \<and> ns_indices (fst (foldl (NodeSequence_step (\<lambda>r xs. (drop r xs @ take r xs, Suc r))) (a, g1')
          [Call OnEpochEnd, Elsewhere Suc, Call (GetItem 0)]))
       = ns_indices (fst (foldl (NodeSequence_step (\<lambda>r xs. (drop r xs @ take r xs, Suc r))) (b, g2')
          [Call (GetItem 1), Call OnEpochEnd]))
     \<and> ns_indices (fst (foldl (NodeSequence_step (\<lambda>r xs. (drop r xs @ take r xs, Suc r))) (a, g1')
          [Call OnEpochEnd, Elsewhere Suc, Call (GetItem 0)])) = [2, 3, 4, 0, 1]
     \<and> g1' = 0 \<and> g2' = 3
     \<and> snd (foldl (NodeSequence_step (\<lambda>r xs. (drop r xs @ take r xs, Suc r))) (a, g1')
          [Call OnEpochEnd, Elsewhere Suc, Call (GetItem 0)]) = 1"
proof -
  let ?shuf = "\<lambda>(r::nat) (xs::nat list). (drop r xs @ take r xs, Suc r)"
  let ?ia = "NodeSequence_init (\<lambda>v. v) ?shuf (\<lambda>h i. h) 2
        [10, 20, 30, 40, 50 :: nat] (None :: nat list option) True (Some (1 :: nat)) (0 :: nat)"
  let ?ib = "NodeSequence_init (\<lambda>v. v) ?shuf (\<lambda>h i. rev h) 2
        [10, 20, 30, 40, 50 :: nat] (None :: nat list option) True (Some (1 :: nat)) (3 :: nat)"
  let ?e1 = "[Call OnEpochEnd, Elsewhere Suc, Call (GetItem 0)] :: nat event list"
  let ?e2 = "[Call (GetItem 1), Call OnEpochEnd] :: nat event list"
  obtain a g1' where a: "?ia = Inr (a, g1')"
    by (cases "projr ?ia") (simp add: NodeSequence_init_def)
  obtain b g2' where b: "?ib = Inr (b, g2')"
    by (cases "projr ?ib") (simp add: NodeSequence_init_def)
  have n: "length (filter is_epoch_end ?e1) = length (filter is_epoch_end ?e2)" by simp
  from a have a0: "(a, g1') = projr ?ia" by simp
  have idx: "ns_indices (fst (foldl (NodeSequence_step ?shuf) (a, g1') ?e1)) = [2, 3, 4, 0, 1]"
    unfolding a0
    by (simp add: NodeSequence_init_def NodeSequence_on_epoch_end_def random_state_def
        generator_shuffle_def upt_rec)
  note t = seeded_shuffle_reproducible [OF disjI1 [OF a] disjI1 [OF b] n, where i = 0]
  from t have c1: "ns_indices (fst (foldl (NodeSequence_step ?shuf) (a, g1') ?e1))
       = ns_indices (fst (foldl (NodeSequence_step ?shuf) (b, g2') ?e2))" by blast
  from t have c2: "g1' = 0" "g2' = 3" by blast+
  from t have "snd (foldl (NodeSequence_step ?shuf) (a, g1') ?e1) = foldl elsewhere 0 ?e1"
    by blast
  moreover have "foldl elsewhere (0::nat) ?e1 = 1" by simp
  ultimately have c3: "snd (foldl (NodeSequence_step ?shuf) (a, g1') ?e1) = 1" by (rule trans)
  from a b c1 idx c2 c3 show ?thesis by blast
qed

text \<open>
  Without a seed the object draws from the generator of the process, and two objects
  built alike in two states of that generator differ.
\<close>

lemma unseeded_shuffle_depends_on_process:
  "map_sum id (\<lambda>p. ns_indices (fst p))
     (NodeSequence_init (\<lambda>v. v) (\<lambda>r xs. (drop r xs @ take r xs, Suc r)) (\<lambda>h i. h) 2
        [10, 20, 30 :: nat] (None :: nat list option) True (None :: nat option) (1 :: nat))
     = Inr [1, 2, 0]
   \<and> map_sum id (\<lambda>p. ns_indices (fst p))
     (NodeSequence_init (\<lambda>v. v) (\<lambda>r xs. (drop r xs @ take r xs, Suc r)) (\<lambda>h i. h) 2
        [10, 20, 30 :: nat] (None :: nat list option) True (None :: nat option) (2 :: nat))
     = Inr [2, 0, 1]"
  by (simp add: NodeSequence_init_def NodeSequence_on_epoch_end_def random_state_def
      generator_shuffle_def upt_rec)

subsection \<open>Construction of a graph sequence without normalisation\<close>

text \<open>
  Claim C3 does not hold of the code. With \<open>normalize=False\<close> the constructor stores the
  raw adjacency matrices in the attribute \<open>normalize_adjs\<close> and then reads
  \<open>self.normalized_adjs\<close>, which was never assigned: the construction raises
  \<open>AttributeError\<close> (or \<open>ValueError\<close> before that, when the targets do not match the
  graphs), for every list of graphs, and no object is built.
\<close>

theorem graph_init_unnormalized_fails:
  "GraphSequence_init normalize_adj random_shuffle g graphs targets False batch_size name
     = Inl (if (case targets of None \<Rightarrow> False | Some t \<Rightarrow> length graphs \<noteq> length t)
            then ValueError else AttributeError)
   \<and> GraphSequence_init normalize_adj random_shuffle g graphs None False batch_size name
     = Inl AttributeError"
  by (simp add: GraphSequence_init_def)

subsection \<open>Batches past the end\<close>

lemma py_slice_past_end:
  assumes "int (length xs) \<le> start"
  shows "py_slice xs start stop = []"
proof -
  from assms have "0 \<le> start" by simp
  with assms show ?thesis by (simp add: py_slice_def Let_def)
qed

lemma GraphSequence_getitem_past_end:
  assumes "int (length (gs_graphs u)) \<le> i * gs_batch_size u"
  shows "GraphSequence_getitem u i = Inl ValueError"
proof -
  from py_slice_past_end [OF assms]
  have "py_slice (gs_graphs u) (i * gs_batch_size u) ((i + 1) * gs_batch_size u) = []" .
  then show ?thesis by (simp add: GraphSequence_getitem_def Let_def py_max_def)
qed

text \<open>
  Claim C1, as the code has it. A node or link sequence refuses batch \<open>i\<close> with
  \<open>IndexError\<close> whenever \<open>i * batch_size \<ge> N\<close>, and an on-demand link sequence whenever
  \<open>i\<close> is at least its length. A graph sequence has no such test: with
  \<open>i * batch_size \<ge> N\<close> the slice of graphs is empty and \<open>max\<close> of the empty list of node
  counts raises \<open>ValueError\<close>. In particular batch \<open>len\<close> fails in these ways, for the
  on-demand sequence always, and for the others when \<open>0 < batch_size \<le> 2^1022\<close> and
  \<open>N < 2^53\<close>, where the length is \<open>ceil(N / batch_size)\<close>.
\<close>

theorem batch_past_the_end_fails:
  "(ns_data_size s \<le> ns_batch_size s * i \<longrightarrow>
       NodeSequence_getitem s i = Inl IndexError \<and> LinkSequence_getitem s i = Inl IndexError)
   \<and> (OnDemandLinkSequence_len t \<le> i \<longrightarrow> OnDemandLinkSequence_getitem t i = Inl IndexError)
   \<and> OnDemandLinkSequence_getitem t (OnDemandLinkSequence_len t) = Inl IndexError
   \<and> (int (length (gs_graphs u)) \<le> i * gs_batch_size u \<longrightarrow>
       GraphSequence_getitem u i = Inl ValueError)
   \<and> (double_rounding fl \<and> 0 < ns_batch_size s \<and> ns_batch_size s \<le> 2 ^ 1022
        \<and> 0 \<le> ns_data_size s \<and> ns_data_size s < 2 ^ 53 \<longrightarrow>
       (\<exists>k. NodeSequence_len fl s = Inr k \<and> LinkSequence_len fl s = Inr k
          \<and> NodeSequence_getitem s k = Inl IndexError
          \<and> LinkSequence_getitem s k = Inl IndexError))
   \<and> (double_rounding fl \<and> 0 < gs_batch_size u \<and> gs_batch_size u \<le> 2 ^ 1022
        \<and> int (length (gs_graphs u)) < 2 ^ 53 \<longrightarrow>
       (\<exists>k. GraphSequence_len fl u = Inr k \<and> GraphSequence_getitem u k = Inl ValueError))"
proof (intro conjI impI)
  assume "ns_data_size s \<le> ns_batch_size s * i"
  then show "NodeSequence_getitem s i = Inl IndexError"
    by (simp add: NodeSequence_getitem_def)
  then show "LinkSequence_getitem s i = Inl IndexError"
    by (simp add: LinkSequence_eqs)
next
  assume "OnDemandLinkSequence_len t \<le> i"
  then show "OnDemandLinkSequence_getitem t i = Inl IndexError"
    by (simp add: OnDemandLinkSequence_getitem_def)
next
  show "OnDemandLinkSequence_getitem t (OnDemandLinkSequence_len t) = Inl IndexError"
    by (simp add: OnDemandLinkSequence_getitem_def)
next
  assume "int (length (gs_graphs u)) \<le> i * gs_batch_size u"
  then show "GraphSequence_getitem u i = Inl ValueError"
    by (rule GraphSequence_getitem_past_end)
next
  assume h: "double_rounding fl \<and> 0 < ns_batch_size s \<and> ns_batch_size s \<le> 2 ^ 1022
        \<and> 0 \<le> ns_data_size s \<and> ns_data_size s < 2 ^ 53"
  then have "\<exists>k. ceil_div fl (ns_data_size s) (ns_batch_size s) = Inr (int k)
      \<and> int k = \<lceil>real_of_int (ns_data_size s) / real_of_int (ns_batch_size s)\<rceil>
      \<and> ns_data_size s \<le> int k * ns_batch_size s
      \<and> (\<forall>i<k. ns_batch_size s * int i < ns_data_size s)"
    by (intro ceil_div_bounds) simp_all
  then obtain k where k: "ceil_div fl (ns_data_size s) (ns_batch_size s) = Inr (int k)"
    "ns_data_size s \<le> int k * ns_batch_size s" by blast
  from k(2) have "ns_data_size s \<le> ns_batch_size s * int k" by (simp add: mult.commute)
  then have "NodeSequence_getitem s (int k) = Inl IndexError"
    by (simp add: NodeSequence_getitem_def)
  with k(1) show "\<exists>k. NodeSequence_len fl s = Inr k \<and> LinkSequence_len fl s = Inr k
          \<and> NodeSequence_getitem s k = Inl IndexError
          \<and> LinkSequence_getitem s k = Inl IndexError"
    by (intro exI [of _ "int k"]) (simp add: LinkSequence_eqs NodeSequence_len_def)
next
  assume h: "double_rounding fl \<and> 0 < gs_batch_size u \<and> gs_batch_size u \<le> 2 ^ 1022
        \<and> int (length (gs_graphs u)) < 2 ^ 53"
  then have "\<exists>k. ceil_div fl (int (length (gs_graphs u))) (gs_batch_size u) = Inr (int k)
      \<and> int k = \<lceil>real_of_int (int (length (gs_graphs u))) / real_of_int (gs_batch_size u)\<rceil>
      \<and> int (length (gs_graphs u)) \<le> int k * gs_batch_size u
      \<and> (\<forall>i<k. gs_batch_size u * int i < int (length (gs_graphs u)))"
    by (intro ceil_div_bounds) simp_all
  then obtain k where k: "ceil_div fl (int (length (gs_graphs u))) (gs_batch_size u) = Inr (int k)"
    "int (length (gs_graphs u)) \<le> int k * gs_batch_size u" by blast
  from GraphSequence_getitem_past_end [OF k(2)] k(1)
  show "\<exists>k. GraphSequence_len fl u = Inr k \<and> GraphSequence_getitem u k = Inl ValueError"
    by (intro exI [of _ "int k"]) (simp add: GraphSequence_len_def)
qed


theorem batch_past_the_end_fails_witness:
  "NodeSequence_getitem
      \<lparr>ns_targets = (None :: nat list option), ns_sample_function = (\<lambda>h i. h),
       ns_ids = [10, 20, 30 :: nat], ns_data_size = 3, ns_shuffle = False, ns_batch_size = 2,
       ns_rs = (ProcessWide :: nat generator), ns_indices = [0, 1, 2]\<rparr> 2 = Inl IndexError
   \<and> NodeSequence_len (\<lambda>x. x)
      \<lparr>ns_targets = (None :: nat list option), ns_sample_function = (\<lambda>h i. h),
       ns_ids = [10, 20, 30 :: nat], ns_data_size = 3, ns_shuffle = False, ns_batch_size = 2,
       ns_rs = (ProcessWide :: nat generator), ns_indices = [0, 1, 2]\<rparr> = Inr 2
   \<and> OnDemandLinkSequence_getitem
      \<lparr>od_sample_features = (\<lambda>h i. h), od_batch_size = 1, od_walker = (0 :: nat),
       od_shuffle = True, od_batches = [([1 :: nat], True), ([2], False)], od_length = 2,
       od_data_size = 2\<rparr> 2 = Inl IndexError
   \<and> GraphSequence_getitem
      \<lparr>gs_name = None,
       gs_graphs = [\<lparr>g_number_of_nodes = 1, g_feature_size = 1, g_node_features = [[1 :: int]],
                     g_adjacency = \<lparr>sp_shape = (1, 1), sp_entries = []\<rparr>\<rparr>,
                    \<lparr>g_number_of_nodes = 1, g_feature_size = 1, g_node_features = [[2]],
                     g_adjacency = \<lparr>sp_shape = (1, 1), sp_entries = [(0, 0, 1)]\<rparr>\<rparr>],
       gs_normalize_adj = True, gs_targets = (None :: nat list option), gs_batch_size = 1,
       gs_normalized_adjs = [\<lparr>sp_shape = (1, 1), sp_entries = []\<rparr>,
                             \<lparr>sp_shape = (1, 1), sp_entries = [(0, 0, 1)]\<rparr>]\<rparr> 2 = Inl ValueError
   \<and> GraphSequence_len (\<lambda>x. x)
      \<lparr>gs_name = None,
       gs_graphs = [\<lparr>g_number_of_nodes = 1, g_feature_size = 1, g_node_features = [[1 :: int]],
                     g_adjacency = \<lparr>sp_shape = (1, 1), sp_entries = []\<rparr>\<rparr>,
                    \<lparr>g_number_of_nodes = 1, g_feature_size = 1, g_node_features = [[2]],
                     g_adjacency = \<lparr>sp_shape = (1, 1), sp_entries = [(0, 0, 1)]\<rparr>\<rparr>],
       gs_normalize_adj = True, gs_targets = (None :: nat list option), gs_batch_size = 1,
       gs_normalized_adjs = [\<lparr>sp_shape = (1, 1), sp_entries = []\<rparr>,
                             \<lparr>sp_shape = (1, 1), sp_entries = [(0, 0, 1)]\<rparr>]\<rparr> = Inr 2"
proof -
  let ?S = "\<lparr>ns_targets = (None :: nat list option), ns_sample_function = (\<lambda>(h :: nat list) (i :: int). h),
       ns_ids = [10, 20, 30 :: nat], ns_data_size = 3, ns_shuffle = False, ns_batch_size = 2,
       ns_rs = (ProcessWide :: nat generator), ns_indices = [0, 1, 2]\<rparr>"
  let ?T = "\<lparr>od_sample_features = (\<lambda>(h :: nat list) (i :: int). h), od_batch_size = 1, od_walker = (0 :: nat),
       od_shuffle = True, od_batches = [([1 :: nat], True), ([2], False)], od_length = 2,
       od_data_size = 2\<rparr>"
  let ?U = "\<lparr>gs_name = None,
       gs_graphs = [\<lparr>g_number_of_nodes = 1, g_feature_size = 1, g_node_features = [[1 :: int]],
                     g_adjacency = \<lparr>sp_shape = (1, 1), sp_entries = []\<rparr>\<rparr>,
                    \<lparr>g_number_of_nodes = 1, g_feature_size = 1, g_node_features = [[2]],
                     g_adjacency = \<lparr>sp_shape = (1, 1), sp_entries = [(0, 0, 1)]\<rparr>\<rparr>],
       gs_normalize_adj = True, gs_targets = (None :: nat list option), gs_batch_size = 1,
       gs_normalized_adjs = [\<lparr>sp_shape = (1, 1), sp_entries = []\<rparr>,
                             \<lparr>sp_shape = (1, 1), sp_entries = [(0, 0, 1)]\<rparr>]\<rparr>"
  note t = batch_past_the_end_fails [where s = ?S and t = ?T and u = ?U and i = 2 and fl = "\<lambda>x. x"]
  have dr: "double_rounding (\<lambda>x. x)" by (simp add: double_rounding_def)
  have "ns_data_size ?S \<le> ns_batch_size ?S * 2" by simp
  with t [THEN conjunct1] have a: "NodeSequence_getitem ?S 2 = Inl IndexError" by blast
  have "OnDemandLinkSequence_len ?T \<le> 2" by (simp add: OnDemandLinkSequence_len_def)
  with t [THEN conjunct2, THEN conjunct1]
  have b: "OnDemandLinkSequence_getitem ?T 2 = Inl IndexError" by blast
  have "int (length (gs_graphs ?U)) \<le> 2 * gs_batch_size ?U" by simp
  with t [THEN conjunct2, THEN conjunct2, THEN conjunct2, THEN conjunct1]
  have c: "GraphSequence_getitem ?U 2 = Inl ValueError" by blast
  have "double_rounding (\<lambda>x. x) \<and> 0 < ns_batch_size ?S \<and> ns_batch_size ?S \<le> 2 ^ 1022
        \<and> 0 \<le> ns_data_size ?S \<and> ns_data_size ?S < 2 ^ 53" using dr by simp
  with t [THEN conjunct2, THEN conjunct2, THEN conjunct2, THEN conjunct2, THEN conjunct1]
  obtain k where k: "NodeSequence_len (\<lambda>x. x) ?S = Inr k" by blast
  have "NodeSequence_len (\<lambda>x. x) ?S = Inr \<lceil>3 / 2 :: real\<rceil>"
    by (simp add: NodeSequence_len_def ceil_div_def)
  also have "\<lceil>3 / 2 :: real\<rceil> = 2" by (simp add: ceiling_eq_iff)
  finally have d: "NodeSequence_len (\<lambda>x. x) ?S = Inr 2" .
  have "double_rounding (\<lambda>x. x) \<and> 0 < gs_batch_size ?U \<and> gs_batch_size ?U \<le> 2 ^ 1022
        \<and> int (length (gs_graphs ?U)) < 2 ^ 53" using dr by simp
  with t [THEN conjunct2, THEN conjunct2, THEN conjunct2, THEN conjunct2, THEN conjunct2]
  obtain k' where k': "GraphSequence_len (\<lambda>x. x) ?U = Inr k'" by blast
  have e: "GraphSequence_len (\<lambda>x. x) ?U = Inr 2"
    by (simp add: GraphSequence_len_def ceil_div_def)
  from a b c d e show ?thesis by (intro conjI)
qed

text \<open>
  The claim itself fails on the graph sequence: one graph, batch size 1. Batch \<open>0\<close> is
  served; the length is \<open>1\<close>; batch \<open>1\<close> raises \<open>ValueError\<close>, the error of \<open>max([])\<close>,
  which is not the out-of-range error.
\<close>

theorem graph_batch_past_the_end_counterexample:
  "\<exists>s g'. GraphSequence_init (\<lambda>A. A) (\<lambda>g xs. (xs, g)) (0 :: nat)
          [\<lparr>g_number_of_nodes = 1, g_feature_size = 1, g_node_features = [[7 :: int]],
            g_adjacency = \<lparr>sp_shape = (1, 1), sp_entries = [(0, 0, 1)]\<rparr>\<rparr>]
          (None :: nat list option) True 1 None = Inr (s, g')
     \<and> GraphSequence_len (\<lambda>x. x) s = Inr 1
     \<and> GraphSequence_getitem s 0 = Inr ((([[[7]]], [[True]], [[[1]]]), None), s)
     \<and> GraphSequence_getitem s 1 = Inl ValueError
     \<and> ValueError \<noteq> IndexError"
  by (simp add: GraphSequence_init_def GraphSequence_on_epoch_end_def py_take_def
      GraphSequence_len_def ceil_div_def GraphSequence_getitem_def Let_def py_slice_def
      py_max_def np_pad_rows_def np_stack_def sp_resize_def sp_toarray_def mutate_slice_def
      py_slice_start_def py_getitem_def)

subsection \<open>Batches of a graph sequence\<close>



lemma py_slice_length:
  assumes "length xs = length ys"
  shows "length (py_slice xs a b) = length (py_slice ys a b)"
  using assms by (simp add: py_slice_def Let_def)




subsection \<open>The slice that a batch resizes\<close>

lemma py_slice_take_drop:
  "py_slice xs a b = take (length (py_slice xs a b)) (drop (py_slice_start xs a) xs)"
  by (simp add: py_slice_def py_slice_start_def Let_def min_def)

lemma mutate_slice_take_drop:
  "mutate_slice ys a b f =
     take (py_slice_start ys a) ys
     @ map f (take (length (py_slice ys a b)) (drop (py_slice_start ys a) ys))
     @ drop (py_slice_start ys a + length (py_slice ys a b)) ys"
  unfolding mutate_slice_def using py_slice_take_drop [of ys a b] by simp

lemma py_slice_start_length:
  assumes "length xs = length ys"
  shows "py_slice_start xs a = py_slice_start ys a"
  using assms by (simp add: py_slice_start_def)

lemma segment_split:
  "xs = take lo xs @ take l (drop lo xs) @ drop (lo + l) xs"
proof -
  have "drop (lo + l) xs = drop l (drop lo xs)" by (simp add: add.commute)
  then show ?thesis by (metis append_take_drop_id)
qed

lemma segment_all2:
  assumes P: "list_all2 P xs ys"
    and f: "\<And>x y. x \<in> set (take l (drop lo xs)) \<Longrightarrow> P x y \<Longrightarrow> P x (f y)"
  shows "list_all2 P xs (take lo ys @ map f (take l (drop lo ys)) @ drop (lo + l) ys)"
proof -
  let ?X = "take l (drop lo xs)" and ?Y = "take l (drop lo ys)"
  from P have m: "list_all2 P ?X ?Y" by (intro list_all2_takeI list_all2_dropI)
  then have lXY: "length ?X = length ?Y" by (rule list_all2_lengthD)
  have "list_all2 P ?X (map f ?Y)"
    unfolding list_all2_conv_all_nth
  proof (intro conjI allI impI)
    from lXY show "length ?X = length (map f ?Y)" by simp
  next
    fix i assume i: "i < length ?X"
    from list_all2_nthD [OF m i] have "P (?X ! i) (?Y ! i)" .
    moreover from i have "?X ! i \<in> set ?X" by (rule nth_mem)
    moreover from lXY i have "i < length ?Y" by simp
    ultimately show "P (?X ! i) (map f ?Y ! i)" using f by simp
  qed
  moreover from P have "list_all2 P (take lo xs) (take lo ys)" by (rule list_all2_takeI)
  moreover from P have "list_all2 P (drop (lo + l) xs) (drop (lo + l) ys)" by (rule list_all2_dropI)
  ultimately have "list_all2 P (take lo xs @ ?X @ drop (lo + l) xs)
      (take lo ys @ map f ?Y @ drop (lo + l) ys)"
    by (intro list_all2_appendI)
  with segment_split [of xs lo l] show ?thesis by simp
qed


lemma mutate_slice_all2:
  assumes "list_all2 P xs ys"
    and "\<And>x y. x \<in> set (py_slice xs a b) \<Longrightarrow> P x y \<Longrightarrow> P x (f y)"
  shows "list_all2 P xs (mutate_slice ys a b f)"
proof -
  from assms(1) have len: "length xs = length ys" by (rule list_all2_lengthD)
  note e = py_slice_length [OF len, of a b] py_slice_start_length [OF len, of a]
  from py_slice_take_drop [of xs a b] e
  have x: "py_slice xs a b = take (length (py_slice ys a b)) (drop (py_slice_start ys a) xs)"
    by simp
  show ?thesis
    unfolding mutate_slice_take_drop
    by (rule segment_all2 [OF assms(1)]) (rule assms(2), simp_all add: x)
qed


lemma mutate_slice_length: "length (mutate_slice ys a b f) = length ys"
proof -
  have "list_all2 (\<lambda>x y. True) ys (mutate_slice ys a b f)"
    by (rule mutate_slice_all2) (simp_all add: list_all2_conv_all_nth)
  then show ?thesis by (simp add: list_all2_lengthD)
qed

subsection \<open>The invariant of graph sequences\<close>










subsection \<open>The dense array of a resized matrix\<close>



subsection \<open>Three graphs of 3, 5 and 2 nodes in one batch\<close>




end
